theory Spec2Isabelle
  imports Complex_Main "HOL-Library.Monad_Syntax" "HOL-Library.Signed_Division" "HOL-Library.Word"
begin

unbundle bit_operations_syntax

chapter \<open>The assembly engine of hermes2d (discrete\_problem.cpp)\<close>

text \<open>
  A shallow embedding of \<^verbatim>\<open>src/hermes2d/src/discrete_problem.cpp\<close>.
  \<^verbatim>\<open>Scalar\<close> is modelled by \<open>real\<close>: rounding of \<^verbatim>\<open>double\<close> is not
  represented, the order of the arithmetic operations of the source is kept.
  A fatal \<^verbatim>\<open>error(...)\<close> of the source is a value \<open>Inl e\<close>.
\<close>

datatype error =
    More_than_two_sons
  | Transformation_not_found
  | Only_right_son_not_null
  | Num_neighbors_not_matching
  | Null_dereference

section \<open>Assembly lists and the sparse structure\<close>

text \<open>
  \<^verbatim>\<open>AsmList\<close>: the triples (shape index, global DOF number or a negative number for
  a constrained DOF, coefficient); \<^verbatim>\<open>cnt\<close> is the length of the list.
\<close>

record AsmEntry =
  idx :: int
  dof :: int
  coef :: real

type_synonym AsmList = "AsmEntry list"

text \<open>
  The calls made on the \<^verbatim>\<open>SparseMatrix\<close> and the \<^verbatim>\<open>Vector\<close> while the structure is
  created, in their order.
\<close>

datatype mat_call = Mat_zero | Mat_free | Mat_prealloc nat | Mat_pre_add_ij int int | Mat_alloc

datatype vec_call = Vec_zero | Vec_alloc nat

text \<open>
  The members of \<^verbatim>\<open>DiscreteProblem\<close> that decide whether the structure is reused.
  \<^verbatim>\<open>sp_seq\<close> is an array of \<^verbatim>\<open>wf->get_neq()\<close> numbers, which \<^verbatim>\<open>init\<close> and
  \<^verbatim>\<open>free\<close> fill with -1.
\<close>

record DiscreteProblem =
  have_matrix :: bool
  sp_seq :: "nat \<Rightarrow> int"
  wf_seq :: int
  struct_changed :: bool

definition init :: DiscreteProblem where
  "init = \<lparr>have_matrix = False, sp_seq = (\<lambda>i. - 1), wf_seq = - 1, struct_changed = True\<rparr>"

text \<open>
  What \<^verbatim>\<open>create_sparse_structure\<close> reads from its collaborators. A space gives its
  change counter, its number of DOFs and the assembly list of an element; the number of
  spaces is \<^verbatim>\<open>wf->get_neq()\<close> (\<^verbatim>\<open>init\<close> refuses anything else). Of each surface form
  only the test \<^verbatim>\<open>areas[0] == H2D_DG_INNER_EDGE\<close> is read. A state of the traversal is
  the tuple \<^verbatim>\<open>e\<close> of elements, \<open>None\<close> for \<^verbatim>\<open>NULL\<close>.
\<close>

record Space =
  get_seq :: int
  get_num_dofs :: nat
  get_element_assembly_list :: "nat \<Rightarrow> AsmList"

record WeakForm =
  wf_get_seq :: int
  mfsurf_dg :: "bool list"
  vfsurf_dg :: "bool list"
  mfsurf_mc_dg :: "bool list"
  vfsurf_mc_dg :: "bool list"
  get_blocks :: "bool \<Rightarrow> nat \<Rightarrow> nat \<Rightarrow> bool"

record Mesh_env =
  spaces :: "Space list"
  wf :: WeakForm
  traverse_states :: "nat option list list"
  get_num_surf :: "nat \<Rightarrow> nat"
  get_neighbors :: "nat \<Rightarrow> nat option \<Rightarrow> nat \<Rightarrow> nat list"

definition get_neq :: "Mesh_env \<Rightarrow> nat" where
  "get_neq env = length (spaces env)"

text \<open>\<^verbatim>\<open>is_up_to_date\<close>; the loop over the spaces stops at the first difference.\<close>

fun seqs_equal :: "Mesh_env \<Rightarrow> DiscreteProblem \<Rightarrow> nat list \<Rightarrow> bool" where
  "seqs_equal env dp [] = True"
| "seqs_equal env dp (i # is) =
     (if get_seq (spaces env ! i) \<noteq> sp_seq dp i then False else seqs_equal env dp is)"

definition is_up_to_date :: "Mesh_env \<Rightarrow> DiscreteProblem \<Rightarrow> bool" where
  "is_up_to_date env dp =
     (let up_to_date = True;
          up_to_date = (if \<not> have_matrix dp then False else up_to_date);
          up_to_date = (if \<not> seqs_equal env dp [0..<get_neq env] then False else up_to_date);
          up_to_date = (if wf_get_seq (wf env) \<noteq> wf_seq dp then False else up_to_date)
      in up_to_date)"

text \<open>
  The innermost loops: \<^verbatim>\<open>for i < am->cnt\<close>, \<^verbatim>\<open>if (am->dof[i] >= 0)\<close>,
  \<^verbatim>\<open>for j < an->cnt\<close>, \<^verbatim>\<open>if (an->dof[j] >= 0)\<close>, with the body \<open>reg\<close>.
\<close>

definition register_pairs :: "AsmList \<Rightarrow> AsmList \<Rightarrow> (int \<Rightarrow> int \<Rightarrow> mat_call list) \<Rightarrow> mat_call list" where
  "register_pairs am an reg =
     concat (map (\<lambda>a. if dof a \<ge> 0
                       then concat (map (\<lambda>b. if dof b \<ge> 0 then reg (dof a) (dof b) else []) an)
                       else []) am)"

text \<open>
  \<^verbatim>\<open>if (is_diagonal_block == false || force_diagonal_blocks == false)
     if (block_weights != NULL) if (fabs(block_weights->get_A(m, n)) < 1e-12) continue;\<close>
\<close>

definition skip_block :: "bool \<Rightarrow> (nat \<Rightarrow> nat \<Rightarrow> real) option \<Rightarrow> nat \<Rightarrow> nat \<Rightarrow> bool" where
  "skip_block force_diagonal_blocks block_weights m n =
     ((m \<noteq> n \<or> \<not> force_diagonal_blocks)
      \<and> (case block_weights of None \<Rightarrow> False | Some A \<Rightarrow> \<bar>A m n\<bar> < 1 / 10 ^ 12))"

text \<open>
  The pass over the neighbors ("Pre-add into the stiffness matrix") of one state. The
  assembly list \<open>an\<close> is the one of space \<open>el\<close> on the neighbor; its DOFs are registered as
  columns of block \<open>(m, el)\<close> and as rows of block \<open>(el, m)\<close>.
\<close>

definition dg_pre_add ::
  "Mesh_env \<Rightarrow> bool \<Rightarrow> (nat \<Rightarrow> nat \<Rightarrow> real) option \<Rightarrow> nat option list \<Rightarrow> AsmList list \<Rightarrow> nat
     \<Rightarrow> mat_call list" where
  "dg_pre_add env force_diagonal_blocks block_weights e al num_edges =
     (let blocks = get_blocks (wf env) force_diagonal_blocks
      in concat (map (\<lambda>m. concat (map (\<lambda>el.
           if skip_block force_diagonal_blocks block_weights m el then []
           else concat (map (\<lambda>ed. concat (map (\<lambda>neigh.
                  if (blocks m el \<or> blocks el m) \<and> e ! m \<noteq> None
                  then register_pairs (al ! m) (get_element_assembly_list (spaces env ! el) neigh)
                         (\<lambda>i j. (if blocks m el then [Mat_pre_add_ij i j] else [])
                               @ (if blocks el m then [Mat_pre_add_ij j i] else []))
                  else [])
                (get_neighbors env el (e ! el) ed))) [0..<num_edges]))
         [0..<get_neq env])) [0..<get_neq env]))"

text \<open>The pass over the equation blocks of the local stiffness matrix of one state.\<close>

definition vol_pre_add ::
  "Mesh_env \<Rightarrow> bool \<Rightarrow> (nat \<Rightarrow> nat \<Rightarrow> real) option \<Rightarrow> nat option list \<Rightarrow> AsmList list
     \<Rightarrow> mat_call list" where
  "vol_pre_add env force_diagonal_blocks block_weights e al =
     (let blocks = get_blocks (wf env) force_diagonal_blocks
      in concat (map (\<lambda>m. concat (map (\<lambda>n.
           if skip_block force_diagonal_blocks block_weights m n then []
           else if blocks m n \<and> e ! m \<noteq> None \<and> e ! n \<noteq> None
           then register_pairs (al ! m) (al ! n) (\<lambda>i j. [Mat_pre_add_ij i j])
           else [])
         [0..<get_neq env])) [0..<get_neq env]))"

text \<open>
  The loop over the states. \<^verbatim>\<open>al[i]\<close> is refreshed where \<^verbatim>\<open>e[i]\<close> is not
  \<^verbatim>\<open>NULL\<close> and keeps its content otherwise; with a DG form present,
  \<^verbatim>\<open>e[0]->get_num_surf()\<close> dereferences \<^verbatim>\<open>e[0]\<close>.
\<close>

fun states_loop ::
  "Mesh_env \<Rightarrow> bool \<Rightarrow> (nat \<Rightarrow> nat \<Rightarrow> real) option \<Rightarrow> bool \<Rightarrow> AsmList list \<Rightarrow> nat option list list
     \<Rightarrow> error + mat_call list" where
  "states_loop env force_diagonal_blocks block_weights is_DG al [] = Inr []"
| "states_loop env force_diagonal_blocks block_weights is_DG al (e # es) =
     (let al = map (\<lambda>i. case e ! i of None \<Rightarrow> al ! i
                             | Some el \<Rightarrow> get_element_assembly_list (spaces env ! i) el)
                 [0..<get_neq env]
      in case (if is_DG
               then (case e ! 0 of
                       None \<Rightarrow> Inl Null_dereference
                     | Some e0 \<Rightarrow> Inr (dg_pre_add env force_diagonal_blocks block_weights e al
                                        (get_num_surf env e0)))
               else Inr []) of
           Inl err \<Rightarrow> Inl err
         | Inr dg \<Rightarrow>
             (case states_loop env force_diagonal_blocks block_weights is_DG al es of
                Inl err \<Rightarrow> Inl err
              | Inr rest \<Rightarrow>
                  Inr (dg @ vol_pre_add env force_diagonal_blocks block_weights e al @ rest)))"

text \<open>
  \<^verbatim>\<open>create_sparse_structure(mat, rhs, force_diagonal_blocks, block_weights)\<close>; \<open>mat\<close> and
  \<open>rhs\<close> say whether the pointers are not \<^verbatim>\<open>NULL\<close>. The result is the new state of the
  members and the calls made on the matrix and on the vector.
\<close>

definition create_sparse_structure ::
  "Mesh_env \<Rightarrow> DiscreteProblem \<Rightarrow> bool \<Rightarrow> bool \<Rightarrow> bool \<Rightarrow> (nat \<Rightarrow> nat \<Rightarrow> real) option
     \<Rightarrow> error + (DiscreteProblem \<times> mat_call list \<times> vec_call list)" where
  "create_sparse_structure env dp mat rhs force_diagonal_blocks block_weights =
     (if is_up_to_date env dp
      then Inr (dp, if mat then [Mat_zero] else [], if rhs then [Vec_zero] else [])
      else
        (let is_DG = (True \<in> set (mfsurf_dg (wf env)) \<or> True \<in> set (vfsurf_dg (wf env))
                      \<or> True \<in> set (mfsurf_mc_dg (wf env)) \<or> True \<in> set (vfsurf_mc_dg (wf env)));
             ndof = sum_list (map get_num_dofs (spaces env));
             saved = (\<lambda>dp. dp\<lparr>sp_seq := (\<lambda>i. if i < get_neq env then get_seq (spaces env ! i)
                                               else sp_seq dp i),
                               wf_seq := wf_get_seq (wf env), struct_changed := True\<rparr>);
             vec = (if rhs then [Vec_alloc ndof] else [])
         in if mat
            then (case states_loop env force_diagonal_blocks block_weights is_DG
                         (replicate (get_neq env) []) (traverse_states env) of
                    Inl err \<Rightarrow> Inl err
                  | Inr pre \<Rightarrow>
                      Inr (saved (dp\<lparr>have_matrix := True\<rparr>),
                           [Mat_free, Mat_prealloc ndof] @ pre @ [Mat_alloc], vec))
            else Inr (saved dp, [], vec)))"

subsection \<open>Two coupled spaces on one inner edge\<close>

text \<open>
  Two spaces on the same mesh of the elements 0 and 1, which share edge 0 of element 0.
  Space 0 owns the DOFs 0 (on element 0) and 2 (on element 1), space 1 the DOFs 1 and 3.
  The weak form has an inner-edge matrix form and couples all blocks; the weight table is
  zero at (1, 0) only. The traversal visits element 0.
\<close>

definition space_example :: "int \<Rightarrow> Space" where
  "space_example first_dof = \<lparr>get_seq = 1, get_num_dofs = 2,
     get_element_assembly_list = (\<lambda>el. [\<lparr>idx = 0, dof = first_dof + 2 * int el, coef = 1\<rparr>])\<rparr>"

definition dg_env_example :: Mesh_env where
  "dg_env_example = \<lparr>spaces = [space_example 0, space_example 1],
     wf = \<lparr>wf_get_seq = 1, mfsurf_dg = [True], vfsurf_dg = [], mfsurf_mc_dg = [], vfsurf_mc_dg = [],
            get_blocks = (\<lambda>force m n. True)\<rparr>,
     traverse_states = [[Some 0, Some 0]],
     get_num_surf = (\<lambda>el. 3),
     get_neighbors = (\<lambda>sp el ed. if el = Some 0 \<and> ed = 0 then [1] else [])\<rparr>"

definition weights_example :: "nat \<Rightarrow> nat \<Rightarrow> real" where
  "weights_example m n = (if m = 1 \<and> n = 0 then 0 else 1)"


definition calls_after :: "error + (DiscreteProblem \<times> mat_call list \<times> vec_call list)
    \<Rightarrow> error + (mat_call list \<times> vec_call list)" where
  "calls_after r = (case r of Inr (dp, mc, vc) \<Rightarrow> Inr (mc, vc) | Inl e \<Rightarrow> Inl e)"


section \<open>Assembly of the volume matrix forms\<close>

text \<open>
  \<^verbatim>\<open>Scalar** local_stiffness_matrix\<close>, the buffer that \<^verbatim>\<open>get_matrix_buffer\<close> hands
  out. A new buffer comes from \<^verbatim>\<open>new_matrix\<close>, which is defined outside the source
  file; this file does not write to the buffer before it is used, so what a new buffer
  holds is the argument \<open>fresh\<close>.
\<close>

type_synonym buffer = "nat \<Rightarrow> nat \<Rightarrow> real"

record matrix_buffer_state =
  matrix_buffer_dim :: nat
  matrix_buffer :: buffer

definition get_matrix_buffer :: "buffer \<Rightarrow> nat \<Rightarrow> matrix_buffer_state \<Rightarrow> matrix_buffer_state" where
  "get_matrix_buffer fresh n mb =
     (if n \<le> matrix_buffer_dim mb then mb else \<lparr>matrix_buffer_dim = n, matrix_buffer = fresh\<rparr>)"


text \<open>
  A call \<^verbatim>\<open>mat->add(m, n, local_stiffness_matrix, rows, cols)\<close>: the \<open>m\<close> by \<open>n\<close> corner of
  the buffer at the time of the call and the two DOF arrays.
\<close>

record add_call =
  rows :: "int list"
  cols :: "int list"
  block :: "real list list"

definition mat_add :: "nat \<Rightarrow> nat \<Rightarrow> buffer \<Rightarrow> int list \<Rightarrow> int list \<Rightarrow> add_call" where
  "mat_add m n buf rs cs =
     \<lparr>rows = rs, cols = cs, block = map (\<lambda>i. map (\<lambda>j. buf i j) [0..<n]) [0..<m]\<rparr>"

text \<open>
  Modelled from the spec: the sparse matrix backend is outside the source file. Its block
  insertion adds entry \<open>(i, j)\<close> of the block to the global entry \<open>(rows[i], cols[j])\<close>
  and skips an entry whose row or column index is negative ("either nonnegative
  (contributes) or a fixed sentinel (skipped)").
\<close>

definition contributions :: "add_call \<Rightarrow> (int \<times> int \<times> real) list" where
  "contributions c =
     concat (map (\<lambda>i. concat (map (\<lambda>j.
         if rows c ! i \<ge> 0 \<and> cols c ! j \<ge> 0 then [(rows c ! i, cols c ! j, block c ! i ! j)] else [])
       [0..<length (cols c)])) [0..<length (rows c)])"

definition contributions_to :: "int \<Rightarrow> int \<Rightarrow> add_call list \<Rightarrow> real list" where
  "contributions_to r c calls =
     map (\<lambda>(r', c', v). v) (filter (\<lambda>(r', c', v). r' = r \<and> c' = c) (concat (map contributions calls)))"

text \<open>
  Modelled from the spec: \<^verbatim>\<open>chsgn\<close> and \<^verbatim>\<open>transpose\<close> are defined outside the source
  file ("negating before inserting the transpose block"). \<open>chsgn buf m n\<close> negates the
  \<open>m\<close> by \<open>n\<close> corner of the buffer; \<open>transpose_buffer buf m n\<close> writes the transpose of that
  corner into the \<open>n\<close> by \<open>m\<close> corner and leaves the other entries.
\<close>

definition chsgn :: "buffer \<Rightarrow> nat \<Rightarrow> nat \<Rightarrow> buffer" where
  "chsgn buf m n = (\<lambda>i j. if i < m \<and> j < n then - buf i j else buf i j)"

definition transpose_buffer :: "buffer \<Rightarrow> nat \<Rightarrow> nat \<Rightarrow> buffer" where
  "transpose_buffer buf m n = (\<lambda>i j. if i < n \<and> j < m then buf j i else buf i j)"

text \<open>
  A \<^verbatim>\<open>MatrixFormVol\<close> as the assembly sees it. \<open>eval_form f u v\<close> is the value of
  \<^verbatim>\<open>eval_form(mfv, u_ext, pss[n], spss[m], refmap[n], refmap[m])\<close> when the active shape
  of \<^verbatim>\<open>pss[n]\<close> is \<open>u\<close> and the one of \<^verbatim>\<open>spss[m]\<close> is \<open>v\<close>.
\<close>

record MatrixFormVol =
  mfv_i :: nat
  mfv_j :: nat
  mfv_sym :: int
  mfv_scaling_factor :: real
  mfv_areas :: "string list"
  mfv_eval_form :: "int \<Rightarrow> int \<Rightarrow> real"

text \<open>
  The arguments of \<^verbatim>\<open>assemble_volume_matrix_forms\<close> that do not change during the call.
  \<open>HERMES_ANY\<close> and the marker conversion are defined outside the source file.
\<close>

record vol_args =
  mat_present :: bool
  block_weights :: "(nat \<Rightarrow> nat \<Rightarrow> real) option"
  isempty :: "bool list"
  marker :: int
  al :: "AsmList list"
  HERMES_ANY :: string
  get_internal_marker :: "string \<Rightarrow> int"
  fresh_buffer :: buffer

text \<open>The value stored at \<^verbatim>\<open>local_stiffness_matrix[i][j]\<close>.\<close>

definition local_value :: "real \<Rightarrow> MatrixFormVol \<Rightarrow> AsmEntry \<Rightarrow> AsmEntry \<Rightarrow> real" where
  "local_value block_scaling_coeff mfv am_i an_j =
     (let val = 0
      in if \<bar>coef am_i\<bar> > 1 / 10 ^ 12 \<and> \<bar>coef an_j\<bar> > 1 / 10 ^ 12
         then block_scaling_coeff * mfv_eval_form mfv (idx an_j) (idx am_i) * coef an_j * coef am_i
         else val)"

text \<open>The loop over \<open>j\<close> of the unsymmetric block, for row \<open>i\<close>.\<close>

fun unsym_row :: "bool \<Rightarrow> real \<Rightarrow> MatrixFormVol \<Rightarrow> AsmList \<Rightarrow> AsmList \<Rightarrow> nat \<Rightarrow> nat list \<Rightarrow> buffer \<Rightarrow> buffer" where
  "unsym_row mat c mfv am an i [] buf = buf"
| "unsym_row mat c mfv am an i (j # js) buf =
     unsym_row mat c mfv am an i js
       (if dof (an ! j) \<ge> 0 \<and> mat
        then buf(i := (buf i)(j := local_value c mfv (am ! i) (an ! j)))
        else buf)"

text \<open>
  The loop over \<open>j\<close> of the symmetric block:
  \<^verbatim>\<open>local_stiffness_matrix[i][j] = local_stiffness_matrix[j][i] = val\<close> assigns
  \<^verbatim>\<open>[j][i]\<close> first.
\<close>

fun sym_row :: "bool \<Rightarrow> real \<Rightarrow> MatrixFormVol \<Rightarrow> AsmList \<Rightarrow> AsmList \<Rightarrow> nat \<Rightarrow> nat list \<Rightarrow> buffer \<Rightarrow> buffer" where
  "sym_row mat c mfv am an i [] buf = buf"
| "sym_row mat c mfv am an i (j # js) buf =
     sym_row mat c mfv am an i js
       (if j < i \<and> dof (an ! j) \<ge> 0 then buf
        else if dof (an ! j) \<ge> 0 \<and> mat
        then (let val = local_value c mfv (am ! i) (an ! j);
                  buf = buf(j := (buf j)(i := val))
              in buf(i := (buf i)(j := val)))
        else buf)"

text \<open>
  The loop over \<open>i\<close>. The insertion into the global matrix and the insertion of the
  transposed block stand inside the body of this loop, after the loop over \<open>j\<close>.
\<close>

fun rows_loop ::
  "bool \<Rightarrow> real \<Rightarrow> MatrixFormVol \<Rightarrow> AsmList \<Rightarrow> AsmList \<Rightarrow> nat list \<Rightarrow> buffer \<times> add_call list
     \<Rightarrow> buffer \<times> add_call list" where
  "rows_loop mat c mfv am an [] st = st"
| "rows_loop mat c mfv am an (i # is) (buf, calls) =
     (let tra = (mfv_i mfv \<noteq> mfv_j mfv \<and> mfv_sym mfv \<noteq> 0);
          sym = (mfv_i mfv = mfv_j mfv \<and> mfv_sym mfv = 1)
      in if \<not> tra \<and> dof (am ! i) < 0 then rows_loop mat c mfv am an is (buf, calls)
         else
           (let buf = (if \<not> sym then unsym_row mat c mfv am an i [0..<length an] buf
                       else sym_row mat c mfv am an i [0..<length an] buf);
                calls = (if mat then calls @ [mat_add (length am) (length an) buf (map dof am) (map dof an)]
                         else calls)
            in if tra
               then (let buf = (if mfv_sym mfv < 0 then chsgn buf (length am) (length an) else buf);
                         buf = transpose_buffer buf (length am) (length an);
                         calls = (if mat
                                  then calls @ [mat_add (length an) (length am) buf (map dof an) (map dof am)]
                                  else calls)
                     in rows_loop mat c mfv am an is (buf, calls))
               else rows_loop mat c mfv am an is (buf, calls)))"

text \<open>The body of the loop over the forms, for the form \<open>mfv\<close>.\<close>

definition assemble_one_form ::
  "vol_args \<Rightarrow> MatrixFormVol \<Rightarrow> matrix_buffer_state \<times> add_call list \<Rightarrow> matrix_buffer_state \<times> add_call list" where
  "assemble_one_form a mfv st =
     (let m = mfv_i mfv; n = mfv_j mfv
      in if isempty a ! m \<or> isempty a ! n then st
         else if \<bar>mfv_scaling_factor mfv\<bar> < 1 / 10 ^ 12 then st
         else if \<not> list_ex (\<lambda>area. area = HERMES_ANY a \<or> marker a = get_internal_marker a area)
                     (mfv_areas mfv) then st
         else if (case block_weights a of None \<Rightarrow> False | Some A \<Rightarrow> \<bar>A m n\<bar> < 1 / 10 ^ 12) then st
         else
           (let block_scaling_coeff = (case block_weights a of None \<Rightarrow> 1 | Some A \<Rightarrow> A m n);
                mb = get_matrix_buffer (fresh_buffer a) (max (length (al a ! m)) (length (al a ! n))) (fst st);
                (buf, calls) = rows_loop (mat_present a) block_scaling_coeff mfv (al a ! m) (al a ! n)
                                 [0..<length (al a ! m)] (matrix_buffer mb, snd st)
            in (mb\<lparr>matrix_buffer := buf\<rparr>, calls)))"

text \<open>\<^verbatim>\<open>assemble_volume_matrix_forms\<close>: the loop over \<^verbatim>\<open>stage.mfvol\<close>.\<close>

definition assemble_volume_matrix_forms ::
  "vol_args \<Rightarrow> MatrixFormVol list \<Rightarrow> matrix_buffer_state \<times> add_call list \<Rightarrow> matrix_buffer_state \<times> add_call list" where
  "assemble_volume_matrix_forms a mfvol st = foldl (\<lambda>st mfv. assemble_one_form a mfv st) st mfvol"

text \<open>
  The relation between a block inserted at \<open>(m, n)\<close> and the block inserted at \<open>(n, m)\<close>
  after it: the DOF arrays change places, entry \<open>(j, i)\<close> is the negative of entry \<open>(i, j)\<close>;
  and a list of insertions made of such pairs.
\<close>

definition neg_transposed :: "add_call \<Rightarrow> add_call \<Rightarrow> bool" where
  "neg_transposed d t =
     (rows t = cols d \<and> cols t = rows d
      \<and> block t = map (\<lambda>j. map (\<lambda>i. - (block d ! i ! j)) [0..<length (rows d)]) [0..<length (cols d)])"

fun paired :: "add_call list \<Rightarrow> bool" where
  "paired [] = True"
| "paired [d] = False"
| "paired (d # t # calls) = (neg_transposed d t \<and> paired calls)"

text \<open>
  The block of a form as the loop over \<open>j\<close> computes it, entry by entry, and the negative of
  the transpose of a block.
\<close>

definition direct_block :: "real \<Rightarrow> MatrixFormVol \<Rightarrow> AsmList \<Rightarrow> AsmList \<Rightarrow> real list list" where
  "direct_block c mfv am an = map (\<lambda>a. map (\<lambda>b. local_value c mfv a b) an) am"

definition neg_transpose :: "nat \<Rightarrow> real list list \<Rightarrow> real list list" where
  "neg_transpose n b = map (\<lambda>j. map (\<lambda>row. - (row ! j)) b) [0..<n]"

text \<open>What one insertion adds to the global entry \<open>(r, c)\<close>.\<close>

definition entry_sum :: "add_call \<Rightarrow> int \<Rightarrow> int \<Rightarrow> real" where
  "entry_sum d r c = sum_list (contributions_to r c [d])"

subsection \<open>States with two and three unconstrained shape functions\<close>

text \<open>
  One space; the element carries the DOFs 0, 1 (and 2) with coefficient 1. The first form
  is not symmetric and evaluates to \<open>1 + u + 3 v\<close>, the second one is marked symmetric
  and evaluates to 10. The buffer is the one \<^verbatim>\<open>assemble\<close> allocates with dimension 9,
  here filled with zeros.
\<close>

definition al_example :: "nat \<Rightarrow> AsmList" where
  "al_example k = map (\<lambda>i. \<lparr>idx = int i, dof = int i, coef = 1\<rparr>) [0..<k]"

definition vol_args_example :: "nat \<Rightarrow> vol_args" where
  "vol_args_example k = \<lparr>mat_present = True, block_weights = None, isempty = [False, False], marker = 1,
     al = [al_example k, al_example k], HERMES_ANY = ''-1234'', get_internal_marker = (\<lambda>area. 1),
     fresh_buffer = (\<lambda>i j. 0)\<rparr>"

definition unsym_form_example :: MatrixFormVol where
  "unsym_form_example = \<lparr>mfv_i = 0, mfv_j = 0, mfv_sym = 0, mfv_scaling_factor = 1,
     mfv_areas = [''-1234''], mfv_eval_form = (\<lambda>u v. 1 + real_of_int u + 3 * real_of_int v)\<rparr>"

definition sym_form_example :: MatrixFormVol where
  "sym_form_example = \<lparr>mfv_i = 0, mfv_j = 0, mfv_sym = 1, mfv_scaling_factor = 1,
     mfv_areas = [''-1234''], mfv_eval_form = (\<lambda>u v. 10)\<rparr>"

definition antisym_form_example :: MatrixFormVol where
  "antisym_form_example = \<lparr>mfv_i = 0, mfv_j = 1, mfv_sym = - 1, mfv_scaling_factor = 1,
     mfv_areas = [''-1234''], mfv_eval_form = (\<lambda>u v. 1 + real_of_int u + 3 * real_of_int v)\<rparr>"

text \<open>
  Two spaces of different degree on the element: the first one carries the DOFs 0 and 1,
  the second one the DOFs 10, 11 and 12.
\<close>

definition al_shifted_example :: "nat \<Rightarrow> AsmList" where
  "al_shifted_example k = map (\<lambda>i. \<lparr>idx = int i, dof = 10 + int i, coef = 1\<rparr>) [0..<k]"

definition vol_args_two_spaces_example :: vol_args where
  "vol_args_two_spaces_example = (vol_args_example 2)\<lparr>al := [al_example 2, al_shifted_example 3]\<rparr>"

definition buffer_example :: matrix_buffer_state where
  "buffer_example = \<lparr>matrix_buffer_dim = 9, matrix_buffer = (\<lambda>i j. 0)\<rparr>"


section \<open>The per-state assembly routine and its assembly lists\<close>

text \<open>
  The heap as far as \<^verbatim>\<open>assemble_one_state\<close> uses it for its assembly lists: the
  addresses handed out by \<^verbatim>\<open>new AsmList\<close> and not yet given back by \<^verbatim>\<open>delete\<close>.
\<close>

record heap =
  next_address :: nat
  live :: "nat list"

definition new_AsmList :: "heap \<Rightarrow> nat \<times> heap" where
  "new_AsmList h = (next_address h, \<lparr>next_address = Suc (next_address h), live = live h @ [next_address h]\<rparr>)"

definition delete_AsmList :: "nat \<Rightarrow> heap \<Rightarrow> heap" where
  "delete_AsmList p h = h\<lparr>live := removeAll p (live h)\<rparr>"

text \<open>\<^verbatim>\<open>for (i < wf->get_neq()) al.push_back(new AsmList)\<close>\<close>

fun allocate_lists :: "nat \<Rightarrow> heap \<Rightarrow> nat list \<times> heap" where
  "allocate_lists 0 h = ([], h)"
| "allocate_lists (Suc k) h =
     (let (p, h) = new_AsmList h; (ps, h) = allocate_lists k h in (p # ps, h))"

text \<open>
  \<^verbatim>\<open>init_state\<close>, its search for an element that is not \<^verbatim>\<open>NULL\<close>: the first one
  among \<^verbatim>\<open>e[0]\<close>, ..., \<^verbatim>\<open>e[stage.idx.size() - 1]\<close>.
\<close>

fun init_state :: "nat \<Rightarrow> nat option list \<Rightarrow> nat option" where
  "init_state 0 e = None"
| "init_state (Suc k) e =
     (case init_state k e of
        Some e0 \<Rightarrow> Some e0
      | None \<Rightarrow> e ! k)"

text \<open>
  \<^verbatim>\<open>assemble_one_state\<close>, reduced to its assembly lists: they are allocated, the state
  is initialised, and the routine returns at once when there is no representing element.
  Otherwise the volume forms are assembled (\<open>assemble_volume_forms\<close> stands for the calls
  from \<^verbatim>\<open>init_cache\<close> to the loop over the surfaces, \<open>assemble_surface_integrals\<close> for
  the body of that loop over all surfaces; both keep the pointers), the header of the loop
  over the surfaces reads \<^verbatim>\<open>e[0]->get_num_surf()\<close>, which dereferences \<^verbatim>\<open>e[0]\<close>, and
  the lists are deleted after the loop.
\<close>

definition assemble_one_state ::
  "nat \<Rightarrow> nat \<Rightarrow> nat option list \<Rightarrow> (heap \<Rightarrow> heap) \<Rightarrow> (heap \<Rightarrow> heap) \<Rightarrow> heap \<Rightarrow> error + heap" where
  "assemble_one_state neq stage_idx_size e assemble_volume_forms assemble_surface_integrals h =
     (let (al, h) = allocate_lists neq h
      in case init_state stage_idx_size e of
           None \<Rightarrow> Inr h
         | Some rep_element \<Rightarrow>
             (let h = assemble_volume_forms h
              in case e ! 0 of
                   None \<Rightarrow> Inl Null_dereference
                 | Some e0 \<Rightarrow>
                     (let h = assemble_surface_integrals h
                      in Inr (foldl (\<lambda>h p. delete_AsmList p h) h al))))"

definition empty_heap :: heap where
  "empty_heap = \<lparr>next_address = 0, live = []\<rparr>"


section \<open>Neighbor resolution: the multimesh tree\<close>

text \<open>
  \<^verbatim>\<open>NeighborNode*\<close>: a pointer to a node with its transformation label and two sons, or
  \<^verbatim>\<open>NULL\<close>. The parent pointer is written by the constructor and never read.
\<close>

datatype NeighborNode =
    NULL
  | NeighborNode (get_transformation: nat) (get_left_son: NeighborNode) (get_right_son: NeighborNode)

text \<open>
  \<^verbatim>\<open>insert_into_multimesh_tree(node, transformations, transformation_count)\<close>. The
  source attaches a new son and then descends into it; the model builds the son and
  attaches it. Reading a son of \<^verbatim>\<open>NULL\<close> is the error \<open>Null_dereference\<close>.
\<close>

fun insert_into_multimesh_tree :: "NeighborNode \<Rightarrow> nat list \<Rightarrow> error + NeighborNode" where
  "insert_into_multimesh_tree node [] = Inr node"
| "insert_into_multimesh_tree NULL (x # xs) = Inl Null_dereference"
| "insert_into_multimesh_tree (NeighborNode t l r) (x # xs) =
     (if l = NULL \<and> r = NULL then
        (case insert_into_multimesh_tree (NeighborNode x NULL NULL) xs of
           Inl e \<Rightarrow> Inl e
         | Inr l' \<Rightarrow> Inr (NeighborNode t l' r))
      else
        (case l of
           NULL \<Rightarrow> Inl Null_dereference
         | NeighborNode lt ll lr \<Rightarrow>
             if lt = x then
               (case insert_into_multimesh_tree l xs of
                  Inl e \<Rightarrow> Inl e
                | Inr l' \<Rightarrow> Inr (NeighborNode t l' r))
             else if r \<noteq> NULL then
               (if get_transformation r = x then
                  (case insert_into_multimesh_tree r xs of
                     Inl e \<Rightarrow> Inl e
                   | Inr r' \<Rightarrow> Inr (NeighborNode t l r'))
                else Inl More_than_two_sons)
             else
               (case insert_into_multimesh_tree (NeighborNode x NULL NULL) xs of
                  Inl e \<Rightarrow> Inl e
                | Inr r' \<Rightarrow> Inr (NeighborNode t l r'))))"

text \<open>
  \<^verbatim>\<open>NeighborSearch::NeighborEdgeInfo\<close> and the mode of the central element.
\<close>

record NeighborEdgeInfo =
  local_num_of_edge :: nat
  orientation :: int

datatype ElementMode = HERMES_MODE_TRIANGLE | HERMES_MODE_QUAD

text \<open>
  One neighbor of a \<^verbatim>\<open>NeighborSearch\<close>: position \<open>i\<close> of the parallel containers
  \<^verbatim>\<open>neighbors\<close>, \<^verbatim>\<open>neighbor_edges\<close>, \<^verbatim>\<open>central_transformations\<close> (its first
  \<^verbatim>\<open>central_n_trans[i]\<close> entries) and \<^verbatim>\<open>neighbor_transformations\<close>.
  \<^verbatim>\<open>n_neighbors\<close> is the length of the list; the capacity of the arrays is not modelled.
\<close>

record Neighbor =
  neighbor_el :: nat
  neighbor_edge :: NeighborEdgeInfo
  central_transformations :: "nat list"
  neighbor_transformations :: "nat list"

record NeighborSearch =
  neighbors :: "Neighbor list"
  active_edge :: nat
  central_el_mode :: ElementMode

definition n_neighbors :: "NeighborSearch \<Rightarrow> nat" where
  "n_neighbors ns = length (neighbors ns)"

text \<open>
  \<^verbatim>\<open>build_multimesh_tree(root, neighbor_searches)\<close>; an absent slot of the
  \<^verbatim>\<open>LightArray\<close> is \<open>None\<close>.
\<close>

fun insert_paths :: "NeighborNode \<Rightarrow> nat list list \<Rightarrow> error + NeighborNode" where
  "insert_paths rt [] = Inr rt"
| "insert_paths rt (p # ps) =
     (case insert_into_multimesh_tree rt p of
        Inl e \<Rightarrow> Inl e
      | Inr rt' \<Rightarrow> insert_paths rt' ps)"

fun build_multimesh_tree :: "NeighborNode \<Rightarrow> NeighborSearch option list \<Rightarrow> error + NeighborNode" where
  "build_multimesh_tree rt [] = Inr rt"
| "build_multimesh_tree rt (None # nss) = build_multimesh_tree rt nss"
| "build_multimesh_tree rt (Some ns # nss) =
     (if n_neighbors ns = 1 \<and> length (central_transformations (neighbors ns ! 0)) = 0
      then build_multimesh_tree rt nss
      else (case insert_paths rt (map central_transformations (neighbors ns)) of
              Inl e \<Rightarrow> Inl e
            | Inr rt' \<Rightarrow> build_multimesh_tree rt' nss))"

text \<open>\<^verbatim>\<open>find_node(transformations, transformation_count, node)\<close>\<close>

fun find_node :: "nat list \<Rightarrow> NeighborNode \<Rightarrow> error + NeighborNode" where
  "find_node [] node = Inr node"
| "find_node (x # xs) NULL = Inl Null_dereference"
| "find_node (x # xs) (NeighborNode t l r) =
     (if l \<noteq> NULL \<and> get_transformation l = x then find_node xs l
      else if r \<noteq> NULL \<and> get_transformation r = x then find_node xs r
      else Inl Transformation_not_found)"

text \<open>
  The label pushed on the running neighbor transformation in
  \<^verbatim>\<open>traverse_multimesh_subtree\<close>; the source writes this expression out in the leaf
  branch and again in the inner-node branch.
\<close>

definition neighbor_label :: "ElementMode \<Rightarrow> nat \<Rightarrow> NeighborEdgeInfo \<Rightarrow> nat \<Rightarrow> nat" where
  "neighbor_label mode act_edge edge_info t =
     (case mode of
        HERMES_MODE_TRIANGLE \<Rightarrow>
          if (act_edge = 0 \<and> t = 0) \<or> (act_edge = 1 \<and> t = 1) \<or> (act_edge = 2 \<and> t = 2)
          then (if orientation edge_info = 0 then local_num_of_edge edge_info
                else (local_num_of_edge edge_info + 1) mod 3)
          else (if orientation edge_info \<noteq> 0 then local_num_of_edge edge_info
                else (local_num_of_edge edge_info + 1) mod 3)
      | HERMES_MODE_QUAD \<Rightarrow>
          if (act_edge = 0 \<and> (t = 0 \<or> t = 6)) \<or> (act_edge = 1 \<and> (t = 1 \<or> t = 4))
             \<or> (act_edge = 2 \<and> (t = 2 \<or> t = 7)) \<or> (act_edge = 3 \<and> (t = 3 \<or> t = 5))
          then (if orientation edge_info = 0 then local_num_of_edge edge_info
                else (local_num_of_edge edge_info + 1) mod 4)
          else (if orientation edge_info \<noteq> 0 then local_num_of_edge edge_info
                else (local_num_of_edge edge_info + 1) mod 4))"

text \<open>
  A \<^verbatim>\<open>Hermes::vector<Hermes::vector<unsigned int>*>\<close> that is never empty while it is
  traversed: its last element \<^verbatim>\<open>back()\<close> is kept apart from the ones before it.
\<close>

record running =
  done_paths :: "nat list list"
  back_path :: "nat list"

text \<open>
  \<^verbatim>\<open>traverse_multimesh_subtree\<close>. Every call of the source is guarded by a test of the
  son against \<^verbatim>\<open>NULL\<close>, so the first equation is never used.
\<close>

fun traverse_multimesh_subtree ::
  "NeighborNode \<Rightarrow> running \<Rightarrow> running \<Rightarrow> NeighborEdgeInfo \<Rightarrow> nat \<Rightarrow> ElementMode \<Rightarrow> running \<times> running" where
  "traverse_multimesh_subtree NULL rc rn edge_info act_edge mode = (rc, rn)"
| "traverse_multimesh_subtree (NeighborNode t l r) rc rn edge_info act_edge mode =
     (if l = NULL \<and> r = NULL then
        (let new_neighbor_central_transformations = back_path rc;
             new_neighbor_neighbor_transformations = back_path rn;
             rc = \<lparr>done_paths = done_paths rc @ [back_path rc @ [t]], back_path = new_neighbor_central_transformations\<rparr>;
             rn = \<lparr>done_paths = done_paths rn @ [back_path rn @ [neighbor_label mode act_edge edge_info t]],
                   back_path = new_neighbor_neighbor_transformations\<rparr>
         in (rc, rn))
      else
        (let rc = rc\<lparr>back_path := back_path rc @ [t]\<rparr>;
             rn = rn\<lparr>back_path := back_path rn @ [neighbor_label mode act_edge edge_info t]\<rparr>;
             (rc, rn) = (if l \<noteq> NULL then traverse_multimesh_subtree l rc rn edge_info act_edge mode
                         else (rc, rn));
             (rc, rn) = (if r \<noteq> NULL then traverse_multimesh_subtree r rc rn edge_info act_edge mode
                         else (rc, rn))
         in (rc\<lparr>back_path := butlast (back_path rc)\<rparr>, rn\<lparr>back_path := butlast (back_path rn)\<rparr>)))"

text \<open>
  Modelled from the spec: \<^verbatim>\<open>NeighborSearch::delete_neighbor\<close> is defined outside the
  source file; it takes the neighbor at the given position out of the record ("replace that
  one original neighbor entry"), the later ones move up by one.
\<close>

definition delete_neighbor :: "nat \<Rightarrow> NeighborSearch \<Rightarrow> NeighborSearch" where
  "delete_neighbor position ns = ns\<lparr>neighbors := take position (neighbors ns) @ drop (Suc position) (neighbors ns)\<rparr>"

text \<open>
  \<^verbatim>\<open>update_ns_subtree(ns, node, ith_neighbor)\<close>. The result type of the source is
  \<^verbatim>\<open>unsigned int\<close>: \<^verbatim>\<open>return - 1\<close> is the word \<open>- 1\<close>.
\<close>

definition update_ns_subtree ::
  "NeighborSearch \<Rightarrow> NeighborNode \<Rightarrow> nat \<Rightarrow> error + (NeighborSearch \<times> 32 word)" where
  "update_ns_subtree ns node ith_neighbor =
     (case node of
        NULL \<Rightarrow> Inl Null_dereference
      | NeighborNode t l r \<Rightarrow>
          if l = NULL then (if r \<noteq> NULL then Inl Only_right_son_not_null else Inr (ns, 0))
          else
            (let neighbor = neighbor_el (neighbors ns ! ith_neighbor);
                 edge_info = neighbor_edge (neighbors ns ! ith_neighbor);
                 rc = \<lparr>done_paths = [], back_path = central_transformations (neighbors ns ! ith_neighbor)\<rparr>;
                 rn = \<lparr>done_paths = [], back_path = neighbor_transformations (neighbors ns ! ith_neighbor)\<rparr>;
                 ns = delete_neighbor ith_neighbor ns;
                 (rc, rn) = (if l \<noteq> NULL
                             then traverse_multimesh_subtree l rc rn edge_info (active_edge ns) (central_el_mode ns)
                             else (rc, rn));
                 (rc, rn) = (if r \<noteq> NULL
                             then traverse_multimesh_subtree r rc rn edge_info (active_edge ns) (central_el_mode ns)
                             else (rc, rn));
                 new_neighbors = map (\<lambda>(c, n). \<lparr>neighbor_el = neighbor, neighbor_edge = edge_info,
                                       central_transformations = c, neighbor_transformations = n\<rparr>)
                                   (zip (done_paths rc) (done_paths rn))
             in Inr (ns\<lparr>neighbors := neighbors ns @ new_neighbors\<rparr>, - 1)))"

text \<open>
  \<^verbatim>\<open>update_neighbor_search(ns, multimesh_tree)\<close>. The loop variables are
  \<^verbatim>\<open>unsigned int\<close>: adding the result \<open>- 1\<close> of \<open>update_ns_subtree\<close> wraps around, so
  that after \<^verbatim>\<open>i++\<close> the index is unchanged and the bound is one less.
\<close>

function update_neighbor_search_loop ::
  "NeighborNode \<Rightarrow> NeighborSearch \<Rightarrow> 32 word \<Rightarrow> 32 word \<Rightarrow> error + NeighborSearch" where
  "update_neighbor_search_loop multimesh_tree ns i num_neighbors =
     (if i < num_neighbors then
        (case find_node (central_transformations (neighbors ns ! unat i)) multimesh_tree of
           Inl e \<Rightarrow> Inl e
         | Inr node \<Rightarrow>
             (case update_ns_subtree ns node (unat i) of
                Inl e \<Rightarrow> Inl e
              | Inr (ns', added) \<Rightarrow>
                  update_neighbor_search_loop multimesh_tree ns' (i + added + 1) (num_neighbors + added)))
      else Inr ns)"
  by pat_completeness auto
termination
proof (relation "measure (\<lambda>(t, ns, i, num). unat (num - i))", goal_cases)
  case 1
  show ?case by simp
next
  case (2 multimesh_tree ns i num_neighbors node x ns' added)
  have d: "num_neighbors - i \<noteq> 0" using 2(1) by auto
  have lt: "unat (num_neighbors - i - 1) < unat (num_neighbors - i)"
    using d by (simp add: unat_minus_one unat_gt_0)
  have e: "(num_neighbors + added) - (i + added + 1) = num_neighbors - i - 1" by simp
  have "unat ((num_neighbors + added) - (i + added + 1)) < unat (num_neighbors - i)"
    using lt by (simp only: e)
  then show ?case by simp
qed

declare update_neighbor_search_loop.simps [simp del]

definition update_neighbor_search :: "NeighborSearch \<Rightarrow> NeighborNode \<Rightarrow> error + NeighborSearch" where
  "update_neighbor_search ns multimesh_tree =
     update_neighbor_search_loop multimesh_tree ns 0 (word_of_nat (n_neighbors ns))"

text \<open>
  The loop of \<^verbatim>\<open>assemble_DG_forms\<close> that updates every \<^verbatim>\<open>NeighborSearch\<close> and
  compares the numbers of neighbors; \<open>num_neighbors = 0\<close> means that no number has been
  recorded yet.
\<close>

fun update_and_check ::
  "NeighborNode \<Rightarrow> NeighborSearch option list \<Rightarrow> nat \<Rightarrow> error + (NeighborSearch option list \<times> nat)" where
  "update_and_check rt [] num_neighbors = Inr ([], num_neighbors)"
| "update_and_check rt (None # nss) num_neighbors =
     (case update_and_check rt nss num_neighbors of
        Inl e \<Rightarrow> Inl e
      | Inr (nss', n) \<Rightarrow> Inr (None # nss', n))"
| "update_and_check rt (Some ns # nss) num_neighbors =
     (case update_neighbor_search ns rt of
        Inl e \<Rightarrow> Inl e
      | Inr ns' \<Rightarrow>
          (let num_neighbors = (if num_neighbors = 0 then n_neighbors ns' else num_neighbors)
           in if n_neighbors ns' \<noteq> num_neighbors then Inl Num_neighbors_not_matching
              else (case update_and_check rt nss num_neighbors of
                      Inl e \<Rightarrow> Inl e
                    | Inr (nss', n) \<Rightarrow> Inr (Some ns' # nss', n))))"

text \<open>
  The start of \<^verbatim>\<open>assemble_DG_forms\<close>, after \<^verbatim>\<open>init_neighbors\<close>: a root with label
  0, the tree of all central paths, the update of every \<^verbatim>\<open>NeighborSearch\<close>.
\<close>

definition reconcile_neighbor_searches ::
  "NeighborSearch option list \<Rightarrow> error + (NeighborSearch option list \<times> nat)" where
  "reconcile_neighbor_searches nss =
     (case build_multimesh_tree (NeighborNode 0 NULL NULL) nss of
        Inl e \<Rightarrow> Inl e
      | Inr rt \<Rightarrow> update_and_check rt nss 0)"

text \<open>
  \<^verbatim>\<open>assemble_DG_one_neighbor\<close>, its first steps: the active segment of every
  \<^verbatim>\<open>NeighborSearch\<close> is set to the one number \<^verbatim>\<open>neighbor_i\<close>, and every function of
  the stage gets the transformations \<^verbatim>\<open>central_transformations[neighbor_i]\<close> of the
  \<^verbatim>\<open>NeighborSearch\<close> of its mesh. The result lists, per \<^verbatim>\<open>NeighborSearch\<close> present,
  the transformations pushed for the segment \<open>neighbor_i\<close>.
\<close>

definition pushed_central_transformations :: "NeighborSearch option list \<Rightarrow> nat \<Rightarrow> nat list list" where
  "pushed_central_transformations nss neighbor_i =
     concat (map (\<lambda>s. case s of None \<Rightarrow> []
                         | Some ns \<Rightarrow> [central_transformations (neighbors ns ! neighbor_i)]) nss)"

subsection \<open>Notions of the specification\<close>

text \<open>
  The labels that follow the position \<open>p\<close> in a set of paths, and the condition that no
  position is followed by more than two distinct labels.
\<close>

definition next_labels :: "nat list list \<Rightarrow> nat list \<Rightarrow> nat list" where
  "next_labels ps p = map (\<lambda>q. q ! length p) (filter (\<lambda>q. length p < length q \<and> take (length p) q = p) ps)"

definition at_most_two_labels :: "nat list list \<Rightarrow> bool" where
  "at_most_two_labels ps =
     (\<forall>q \<in> set ps. \<forall>k < length q. length (remdups (next_labels ps (take k q))) \<le> 2)"

text \<open>All central paths handed to \<open>build_multimesh_tree\<close>.\<close>

definition all_central_paths :: "NeighborSearch option list \<Rightarrow> nat list list" where
  "all_central_paths nss =
     concat (map (\<lambda>s. case s of None \<Rightarrow> [] | Some ns \<Rightarrow> map central_transformations (neighbors ns)) nss)"

text \<open>
  The depth-first enumeration of the leaves: \<open>paths_through n\<close> lists, left son first, the
  label paths from \<open>n\<close> down to each leaf below it; \<open>leaf_paths n\<close> lists the paths that
  start at the sons of \<open>n\<close>, and the empty path when \<open>n\<close> is a leaf itself.
\<close>

fun paths_through :: "NeighborNode \<Rightarrow> nat list list" where
  "paths_through NULL = []"
| "paths_through (NeighborNode t l r) =
     (if l = NULL \<and> r = NULL then [[t]] else map ((#) t) (paths_through l @ paths_through r))"

definition leaf_paths :: "NeighborNode \<Rightarrow> nat list list" where
  "leaf_paths node =
     (case node of
        NULL \<Rightarrow> []
      | NeighborNode t l r \<Rightarrow> if l = NULL \<and> r = NULL then [[]] else paths_through l @ paths_through r)"

text \<open>
  What \<open>update_neighbor_search\<close> is to make of the central paths \<open>ps\<close> of one
  \<^verbatim>\<open>NeighborSearch\<close>: the paths that end at a leaf of the tree stay, in their order; the
  others are taken out, and for each of them the paths to the leaves below its node are
  added at the end.
\<close>

definition ends_at_leaf :: "NeighborNode \<Rightarrow> nat list \<Rightarrow> bool" where
  "ends_at_leaf rt p = (case find_node p rt of Inr (NeighborNode t NULL NULL) \<Rightarrow> True | _ \<Rightarrow> False)"

definition replaced_paths :: "NeighborNode \<Rightarrow> nat list \<Rightarrow> nat list list" where
  "replaced_paths rt p = (case find_node p rt of Inr node \<Rightarrow> map ((@) p) (leaf_paths node) | Inl e \<Rightarrow> [])"

definition updated_central_paths :: "NeighborNode \<Rightarrow> nat list list \<Rightarrow> nat list list" where
  "updated_central_paths rt ps =
     filter (ends_at_leaf rt) ps @ concat (map (replaced_paths rt) (filter (\<lambda>p. \<not> ends_at_leaf rt p) ps))"

text \<open>
  The positions of a tree: \<open>node_paths n\<close> lists the label paths from \<open>n\<close> to \<open>n\<close> itself and
  to every node below it, \<open>paths_below n\<close> the label paths from the sons of \<open>n\<close> to every node
  below \<open>n\<close>. A path is inserted with all its nonempty prefixes.
\<close>

fun node_paths :: "NeighborNode \<Rightarrow> nat list list" where
  "node_paths NULL = []"
| "node_paths (NeighborNode t l r) = [t] # map ((#) t) (node_paths l @ node_paths r)"

definition paths_below :: "NeighborNode \<Rightarrow> nat list list" where
  "paths_below node = (case node of NULL \<Rightarrow> [] | NeighborNode t l r \<Rightarrow> node_paths l @ node_paths r)"

definition nonempty_prefixes :: "nat list \<Rightarrow> nat list list" where
  "nonempty_prefixes xs = map (\<lambda>k. take k xs) [1..<Suc (length xs)]"

text \<open>
  A third label: at some position along the path \<open>xs\<close> two distinct labels follow in \<open>ps\<close>
  already and the label of \<open>xs\<close> is neither of them.
\<close>

definition third_label :: "nat list list \<Rightarrow> nat list \<Rightarrow> bool" where
  "third_label ps xs =
     (\<exists>k < length xs. 2 \<le> length (remdups (next_labels ps (take k xs)))
                      \<and> xs ! k \<notin> set (next_labels ps (take k xs)))"

text \<open>
  The shape of the trees that the insertion builds: no node has a right son without a left
  one, and the labels of two sons differ.
\<close>

fun left_first :: "NeighborNode \<Rightarrow> bool" where
  "left_first NULL = True"
| "left_first (NeighborNode t l r) =
     ((r \<noteq> NULL \<longrightarrow> l \<noteq> NULL \<and> get_transformation r \<noteq> get_transformation l)
      \<and> left_first l \<and> left_first r)"

subsection \<open>An edge seen from two meshes\<close>

text \<open>
  The active edge 0 of a triangle. On the first mesh it is shared with the elements 7 and
  8; on the second mesh element 7 is refined once more; a third record has no neighbor, a
  fourth one has a neighbor at the transformations 0, 7.
\<close>

definition example_neighbor :: "nat \<Rightarrow> nat list \<Rightarrow> Neighbor" where
  "example_neighbor el p = \<lparr>neighbor_el = el, neighbor_edge = \<lparr>local_num_of_edge = 1, orientation = 0\<rparr>,
     central_transformations = p, neighbor_transformations = []\<rparr>"

definition ns_coarse :: NeighborSearch where
  "ns_coarse = \<lparr>neighbors = [example_neighbor 7 [0], example_neighbor 8 [1]],
     active_edge = 0, central_el_mode = HERMES_MODE_TRIANGLE\<rparr>"

definition ns_fine :: NeighborSearch where
  "ns_fine = \<lparr>neighbors = [example_neighbor 9 [0, 0], example_neighbor 10 [0, 1], example_neighbor 8 [1]],
     active_edge = 0, central_el_mode = HERMES_MODE_TRIANGLE\<rparr>"

definition ns_none :: NeighborSearch where
  "ns_none = \<lparr>neighbors = [], active_edge = 0, central_el_mode = HERMES_MODE_TRIANGLE\<rparr>"

definition ns_third :: NeighborSearch where
  "ns_third = \<lparr>neighbors = [example_neighbor 11 [0, 7]],
     active_edge = 0, central_el_mode = HERMES_MODE_TRIANGLE\<rparr>"

definition example_tree :: NeighborNode where
  "example_tree = NeighborNode 0 (NeighborNode 0 (NeighborNode 0 NULL NULL) (NeighborNode 1 NULL NULL))
     (NeighborNode 1 NULL NULL)"

definition ns_coarse_updated :: NeighborSearch where
  "ns_coarse_updated = ns_coarse\<lparr>neighbors := [example_neighbor 8 [1],
     (example_neighbor 7 [0, 0])\<lparr>neighbor_transformations := [1]\<rparr>,
     (example_neighbor 7 [0, 1])\<lparr>neighbor_transformations := [2]\<rparr>]\<rparr>"


section \<open>Form evaluation: quadrature, the geometry cache, adaptive subdivision\<close>

text \<open>
  The sub-element transformations pushed on all functions and reference maps
  (\<^verbatim>\<open>Transformable::push_transforms\<close>) are the list of son indices, outermost first.
\<close>

type_synonym path = "nat list"

text \<open>\<^verbatim>\<open>cache_e[order]\<close> together with \<^verbatim>\<open>cache_jwt[order]\<close>; \<open>None\<close> is \<^verbatim>\<open>NULL\<close>.\<close>

type_synonym 'g geom_cache = "int \<Rightarrow> 'g option"

text \<open>
  A single-component form (\<^verbatim>\<open>MatrixFormVol\<close>, \<^verbatim>\<open>VectorFormVol\<close>,
  \<^verbatim>\<open>MatrixFormSurf\<close>, \<^verbatim>\<open>VectorFormSurf\<close>) with the shape functions, previous
  iterates and external functions it is evaluated on. \<open>form_value f e trf o\<close> is the call
  \<^verbatim>\<open>f->value(np, jwt, prev, u, v, e, ext)\<close> made with the geometry and weights \<open>e\<close>
  taken from the cache, the functions transformed by \<open>trf\<close> and the quadrature of order \<open>o\<close>.
\<close>

record 'g form =
  scaling_factor :: real
  adapt_eval :: bool
  adapt_order_increase :: int
  adapt_rel_error_tol :: real
  form_value :: "'g \<Rightarrow> path \<Rightarrow> int \<Rightarrow> real"

text \<open>A multi-component form: \<^verbatim>\<open>value(..., result)\<close> fills a vector.\<close>

record 'g mc_form =
  mc_scaling_factor :: real
  mc_value :: "'g \<Rightarrow> path \<Rightarrow> int \<Rightarrow> real list"

text \<open>
  What the evaluators take from \<^verbatim>\<open>Quad2D\<close>, \<^verbatim>\<open>RefMap\<close> and the geometry
  constructors, none of which is defined in this file of the source.
\<close>

record 'g quad_env =
  get_edge_points :: "nat \<Rightarrow> int \<Rightarrow> int"
  init_geom_vol :: "path \<Rightarrow> int \<Rightarrow> 'g"
  init_geom_surf :: "path \<Rightarrow> nat \<Rightarrow> int \<Rightarrow> 'g"
  interface_geom :: "'g \<Rightarrow> 'g"

definition delete_single_geom_cache :: "int \<Rightarrow> 'g geom_cache \<Rightarrow> 'g geom_cache" where
  "delete_single_geom_cache order cache = cache(order := None)"

text \<open>\<^verbatim>\<open>if (cache_e[o] == NULL) { cache_e[o] = init_geom...; cache_jwt[o] = ... }\<close>\<close>

definition cached_geom :: "'g geom_cache \<Rightarrow> int \<Rightarrow> 'g \<Rightarrow> 'g \<times> 'g geom_cache" where
  "cached_geom cache ord fresh =
     (case cache ord of None \<Rightarrow> (fresh, cache(ord \<mapsto> fresh)) | Some e \<Rightarrow> (e, cache))"

text \<open>\<^verbatim>\<open>eval_form_subelement(order, MatrixFormVol* / VectorFormVol*, ...)\<close>\<close>

definition eval_form_subelement_vol ::
  "'g quad_env \<Rightarrow> int \<Rightarrow> 'g form \<Rightarrow> path \<Rightarrow> 'g geom_cache \<Rightarrow> real \<times> 'g geom_cache" where
  "eval_form_subelement_vol q order f trf cache =
     (let (e, cache') = cached_geom cache order (init_geom_vol q trf order);
          res = form_value f e trf order * scaling_factor f
      in (res, cache'))"

text \<open>\<^verbatim>\<open>eval_form_subelement(order, MatrixFormSurf* / VectorFormSurf*, ..., surf_pos)\<close>\<close>

definition eval_form_subelement_surf ::
  "'g quad_env \<Rightarrow> nat \<Rightarrow> int \<Rightarrow> 'g form \<Rightarrow> path \<Rightarrow> 'g geom_cache \<Rightarrow> real \<times> 'g geom_cache" where
  "eval_form_subelement_surf q surf_num order f trf cache =
     (let eo = get_edge_points q surf_num order;
          (e, cache') = cached_geom cache eo (init_geom_surf q trf surf_num eo);
          res = form_value f e trf eo * scaling_factor f
      in (0.5 * res, cache'))"

text \<open>
  \<^verbatim>\<open>eval_form_adaptive\<close>. The source has four textual copies, one per form class,
  which differ only in the \<^verbatim>\<open>eval_form_subelement\<close> overload they call; \<open>sub\<close> is
  that overload. The first loop evaluates the four sons, the second one recurses into them.
  The recursion has no depth argument: a run that never returns is \<open>None\<close>.
\<close>

definition eval_sons ::
  "(int \<Rightarrow> path \<Rightarrow> 'g geom_cache \<Rightarrow> real \<times> 'g geom_cache) \<Rightarrow> int \<Rightarrow> path \<Rightarrow> 'g geom_cache
     \<Rightarrow> (real \<times> real \<times> real \<times> real) \<times> 'g geom_cache" where
  "eval_sons sub order trf cache =
     (let c = delete_single_geom_cache order cache;
          (s0, c) = sub order (trf @ [0]) c;
          c = delete_single_geom_cache order c;
          (s1, c) = sub order (trf @ [1]) c;
          c = delete_single_geom_cache order c;
          (s2, c) = sub order (trf @ [2]) c;
          c = delete_single_geom_cache order c;
          (s3, c) = sub order (trf @ [3]) c;
          c = delete_single_geom_cache order c
      in ((s0, s1, s2, s3), c))"

partial_function (option) eval_form_adaptive ::
  "(int \<Rightarrow> path \<Rightarrow> 'g geom_cache \<Rightarrow> real \<times> 'g geom_cache) \<Rightarrow> int \<Rightarrow> real \<Rightarrow> 'g form
     \<Rightarrow> path \<Rightarrow> 'g geom_cache \<Rightarrow> (real \<times> 'g geom_cache) option" where
  "eval_form_adaptive sub order_init result_init f trf cache =
     (let order = order_init + adapt_order_increase f;
          ((s0, s1, s2, s3), c) = eval_sons sub order trf cache;
          result_current_subelements = 0 + s0 + s1 + s2 + s3
      in if \<bar>result_current_subelements\<bar> < 1 / 1000000
         then Some (result_current_subelements, c)
         else if \<bar>result_current_subelements - result_init\<bar> / \<bar>result_current_subelements\<bar>
                   < adapt_rel_error_tol f
         then Some (result_current_subelements, c)
         else do {
           (r0, c) \<leftarrow> eval_form_adaptive sub order s0 f (trf @ [0]) c;
           (r1, c) \<leftarrow> eval_form_adaptive sub order s1 f (trf @ [1]) c;
           (r2, c) \<leftarrow> eval_form_adaptive sub order s2 f (trf @ [2]) c;
           (r3, c) \<leftarrow> eval_form_adaptive sub order s3 f (trf @ [3]) c;
           Some (0 + r0 + r1 + r2 + r3, c)
         })"

text \<open>
  The initial orders of the adaptive path. The arguments are the horizontal and vertical
  orders of the active shapes (\<^verbatim>\<open>H2D_GET_H_ORDER\<close>, \<^verbatim>\<open>H2D_GET_V_ORDER\<close>) or their
  edge orders (\<^verbatim>\<open>get_edge_fn_order\<close>); \<^verbatim>\<open>/\<close> on \<^verbatim>\<open>int\<close> truncates.
\<close>

definition order_init_mfv :: "int \<Rightarrow> int \<Rightarrow> int \<Rightarrow> int \<Rightarrow> int" where
  "order_init_mfv fu_order_h fu_order_v fv_order_h fv_order_v =
     (fu_order_h + fu_order_v) sdiv 2 + (fv_order_h + fv_order_v) sdiv 2"

definition order_init_vfv :: "int \<Rightarrow> int \<Rightarrow> int" where
  "order_init_vfv fv_order_h fv_order_v = (fv_order_h + fv_order_v) sdiv 2"

definition order_init_mfs :: "int \<Rightarrow> int \<Rightarrow> int" where
  "order_init_mfs fu_order fv_order = fu_order + fv_order"

definition order_init_vfs :: "int \<Rightarrow> int" where
  "order_init_vfs fv_order = fv_order"

text \<open>
  \<^verbatim>\<open>eval_form\<close> for the volume forms and for the boundary forms. \<open>order_calc\<close> is
  the result of the matching \<^verbatim>\<open>calc_order_...\<close>, \<open>order_init\<close> one of the initial
  orders above.
\<close>

definition eval_form_vol ::
  "'g quad_env \<Rightarrow> int \<Rightarrow> int \<Rightarrow> 'g form \<Rightarrow> 'g geom_cache \<Rightarrow> (real \<times> 'g geom_cache) option" where
  "eval_form_vol q order_calc order_init f cache =
     (if \<not> adapt_eval f then Some (eval_form_subelement_vol q order_calc f [] cache)
      else let (result_init, c) = eval_form_subelement_vol q order_init f [] cache
           in eval_form_adaptive (\<lambda>ord. eval_form_subelement_vol q ord f) order_init result_init f [] c)"

definition eval_form_surf ::
  "'g quad_env \<Rightarrow> nat \<Rightarrow> int \<Rightarrow> int \<Rightarrow> 'g form \<Rightarrow> 'g geom_cache \<Rightarrow> (real \<times> 'g geom_cache) option" where
  "eval_form_surf q surf_num order_calc order_init f cache =
     (if \<not> adapt_eval f then Some (eval_form_subelement_surf q surf_num order_calc f [] cache)
      else let (result_init, c) = eval_form_subelement_surf q surf_num order_init f [] cache
           in eval_form_adaptive (\<lambda>ord. eval_form_subelement_surf q surf_num ord f)
                order_init result_init f [] c)"

text \<open>
  \<^verbatim>\<open>eval_form(MultiComponentMatrixFormSurf* / MultiComponentVectorFormSurf*, ...)\<close>:
  one quadrature at the computed order, every component scaled in place.
\<close>

definition eval_form_mc_surf ::
  "'g quad_env \<Rightarrow> nat \<Rightarrow> int \<Rightarrow> 'g mc_form \<Rightarrow> path \<Rightarrow> 'g geom_cache \<Rightarrow> real list \<times> 'g geom_cache" where
  "eval_form_mc_surf q surf_num order_calc f trf cache =
     (let eo = get_edge_points q surf_num order_calc;
          (e, cache') = cached_geom cache eo (init_geom_surf q trf surf_num eo);
          result = mc_value f e trf eo
      in (map (\<lambda>r. r * (mc_scaling_factor f * 0.5)) result, cache'))"

text \<open>
  \<^verbatim>\<open>eval_dg_form\<close> for \<^verbatim>\<open>MatrixFormSurf\<close> and \<^verbatim>\<open>VectorFormSurf\<close> on an inner
  edge: the geometry of the cache is wrapped into an \<^verbatim>\<open>InterfaceGeom\<close>; the flag
  \<^verbatim>\<open>adapt_eval\<close> is not read.
\<close>

definition eval_dg_form ::
  "'g quad_env \<Rightarrow> nat \<Rightarrow> int \<Rightarrow> 'g form \<Rightarrow> path \<Rightarrow> 'g geom_cache \<Rightarrow> real \<times> 'g geom_cache" where
  "eval_dg_form q surf_num order_calc f trf cache =
     (let eo = get_edge_points q surf_num order_calc;
          (ce, cache') = cached_geom cache eo (init_geom_surf q trf surf_num eo);
          e = interface_geom q ce;
          res = form_value f e trf eo;
          res = res * scaling_factor f
      in (0.5 * res, cache'))"

text \<open>\<^verbatim>\<open>eval_dg_form\<close> for the two multi-component surface form classes.\<close>

definition eval_dg_form_mc ::
  "'g quad_env \<Rightarrow> nat \<Rightarrow> int \<Rightarrow> 'g mc_form \<Rightarrow> path \<Rightarrow> 'g geom_cache \<Rightarrow> real list \<times> 'g geom_cache" where
  "eval_dg_form_mc q surf_num order_calc f trf cache =
     (let eo = get_edge_points q surf_num order_calc;
          (ce, cache') = cached_geom cache eo (init_geom_surf q trf surf_num eo);
          e = interface_geom q ce;
          result = mc_value f e trf eo
      in (map (\<lambda>r. r * (mc_scaling_factor f * 0.5)) result, cache'))"

text \<open>
  The quadrature of a volume form on the son \<open>i\<close> of the sub-element \<open>trf\<close>, on the
  geometry of that son, and the sum over the four sons ("evaluate the same form on each
  sub-element, sum the four sub-results").
\<close>

definition son_value :: "'g quad_env \<Rightarrow> 'g form \<Rightarrow> int \<Rightarrow> path \<Rightarrow> nat \<Rightarrow> real" where
  "son_value q f order trf i =
     form_value f (init_geom_vol q (trf @ [i]) order) (trf @ [i]) order * scaling_factor f"

definition sons_sum :: "'g quad_env \<Rightarrow> 'g form \<Rightarrow> int \<Rightarrow> path \<Rightarrow> real" where
  "sons_sum q f order trf =
     0 + son_value q f order trf 0 + son_value q f order trf 1 + son_value q f order trf 2
       + son_value q f order trf 3"

text \<open>The geometry an evaluation at cache slot \<open>ord\<close> works with.\<close>

definition geom_used :: "'g geom_cache \<Rightarrow> int \<Rightarrow> 'g \<Rightarrow> 'g" where
  "geom_used cache ord fresh = fst (cached_geom cache ord fresh)"

text \<open>
  An inner-edge form with adaptive evaluation switched on, with a constant integrand, on a
  quadrature whose edge order is the order itself.
\<close>

definition dg_quad_example :: "unit quad_env" where
  "dg_quad_example = \<lparr>get_edge_points = (\<lambda>s ord. ord), init_geom_vol = (\<lambda>trf ord. ()),
     init_geom_surf = (\<lambda>trf s ord. ()), interface_geom = (\<lambda>e. e)\<rparr>"

definition adaptive_form_example :: "unit form" where
  "adaptive_form_example = \<lparr>scaling_factor = 1, adapt_eval = True, adapt_order_increase = 0,
     adapt_rel_error_tol = 1, form_value = (\<lambda>e trf ord. 1)\<rparr>"


definition diverging_form_example :: "unit form" where
  "diverging_form_example = adaptive_form_example\<lparr>adapt_rel_error_tol := 1 / 2\<rparr>"

text \<open>
  A quadrature whose geometry records the sub-element it was initialised on and whose
  edge orders differ from the orders, and a form that integrates to 4 on the element, to
  \<open>2 / 4 ^ k\<close> on a sub-element of depth \<open>k\<close>, and to 1000 when it is handed the geometry
  of another sub-element.
\<close>

definition path_quad_example :: "path quad_env" where
  "path_quad_example = \<lparr>get_edge_points = (\<lambda>s ord. ord + 100), init_geom_vol = (\<lambda>trf ord. trf),
     init_geom_surf = (\<lambda>trf s ord. trf), interface_geom = (\<lambda>e. e)\<rparr>"

definition refined_form_example :: "path form" where
  "refined_form_example = \<lparr>scaling_factor = 1, adapt_eval = True, adapt_order_increase = 1,
     adapt_rel_error_tol = 1 / 2,
     form_value = (\<lambda>e trf ord. if e \<noteq> trf then 1000 else if trf = [] then 4 else 2 / 4 ^ length trf)\<rparr>"

chapter \<open>Theorems\<close>

section \<open>Theorems on the sparse structure\<close>








lemma example_dg_calls:
  "calls_after (create_sparse_structure dg_env_example init True False False (Some weights_example))
    = Inr ([Mat_free, Mat_prealloc 4,
           Mat_pre_add_ij 0 2, Mat_pre_add_ij 2 0, Mat_pre_add_ij 0 3, Mat_pre_add_ij 3 0,
           Mat_pre_add_ij 1 3, Mat_pre_add_ij 3 1,
           Mat_pre_add_ij 0 0, Mat_pre_add_ij 0 1, Mat_pre_add_ij 1 1, Mat_alloc], [])"
  by (simp add: calls_after_def create_sparse_structure_def is_up_to_date_def init_def
      dg_env_example_def get_neq_def space_example_def weights_example_def dg_pre_add_def
      vol_pre_add_def register_pairs_def skip_block_def upt_conv_Cons Let_def)

text \<open>
  C8 on the code. The weight of block (1, 0) is zero and the diagonal blocks are not
  forced, yet the pass over the neighbors registers the pair (3, 0): row 3 is the DOF of
  space 1 on the neighbor, column 0 the DOF of space 0 on the central element. It comes
  from the iteration \<open>m = 0\<close>, \<open>el = 1\<close>, which tests the weight of block (0, 1) only and
  registers the transposed pair as well. The pass over the element itself skips the block.
\<close>

theorem dg_pass_registers_zero_weight_block:
  "\<bar>weights_example 1 0\<bar> < 1 / 10 ^ 12
   \<and> map dof (get_element_assembly_list (spaces dg_env_example ! 1) 1) = [3]
   \<and> map dof (get_element_assembly_list (spaces dg_env_example ! 0) 0) = [0]
   \<and> calls_after (create_sparse_structure dg_env_example init True False False (Some weights_example))
       = Inr ([Mat_free, Mat_prealloc 4,
           Mat_pre_add_ij 0 2, Mat_pre_add_ij 2 0, Mat_pre_add_ij 0 3, Mat_pre_add_ij 3 0,
           Mat_pre_add_ij 1 3, Mat_pre_add_ij 3 1,
           Mat_pre_add_ij 0 0, Mat_pre_add_ij 0 1, Mat_pre_add_ij 1 1, Mat_alloc], [])"
  using example_dg_calls
  by (simp add: weights_example_def dg_env_example_def space_example_def)

section \<open>Theorems on the volume matrix forms\<close>

lemma upt3: "[0..<3] = [0, 1, 2]" "[0..<2] = [0, 1]"
  by (simp_all add: upt_conv_Cons)

text \<open>
  For a form without transposed block the matrix receives one insertion for every
  unconstrained row of the assembly list.
\<close>

lemma rows_loop_insertions:
  assumes "mfv_i mfv = mfv_j mfv \<or> mfv_sym mfv = 0"
  shows "length (snd (rows_loop True c mfv am an is (buf, calls)))
           = length calls + length (filter (\<lambda>i. dof (am ! i) \<ge> 0) is)"
  using assms
proof (induction "is" arbitrary: buf calls)
  case Nil
  show ?case by simp
next
  case (Cons i "is")
  then show ?case by (auto simp: Let_def)
qed

text \<open>
  C1 on the code. The state has two unconstrained shape functions and one unsymmetric
  form. The local block is handed to the matrix once per row \<open>i\<close>, not once: the first
  insertion carries the first row and the old content of the buffer in the second row,
  the second insertion carries the first row again. The global entry (0, 0) receives the
  value 1 twice.
\<close>

theorem volume_block_inserted_per_row:
  "map block (snd (assemble_volume_matrix_forms (vol_args_example 2) [unsym_form_example]
                     (buffer_example, [])))
     = [[[1, 2], [0, 0]], [[1, 2], [4, 5]]]
   \<and> contributions_to 0 0 (snd (assemble_volume_matrix_forms (vol_args_example 2) [unsym_form_example]
                     (buffer_example, []))) = [1, 1]
   \<and> contributions_to 1 1 (snd (assemble_volume_matrix_forms (vol_args_example 2) [unsym_form_example]
                     (buffer_example, []))) = [0, 5]"
  by (simp add: assemble_volume_matrix_forms_def assemble_one_form_def vol_args_example_def
      unsym_form_example_def buffer_example_def al_example_def get_matrix_buffer_def upt3 Let_def
      mat_add_def local_value_def contributions_to_def contributions_def)

text \<open>
  C3 on the code. The state has three unconstrained shape functions; an unsymmetric form
  is assembled before the symmetric one and leaves 6 and 8 in the buffer at (1, 2) and
  (2, 1). The first insertion of the symmetric form, made after its row 0 only, carries
  them into the matrix: the symmetric form contributes 6, 10, 10 to the entry (1, 2) and
  8, 10, 10 to the entry (2, 1).
\<close>

theorem symmetric_form_inserts_stale_entries:
  "map block (snd (assemble_volume_matrix_forms (vol_args_example 3) [unsym_form_example, sym_form_example]
                     (buffer_example, [])))
     = [[[1, 2, 3], [0, 0, 0], [0, 0, 0]], [[1, 2, 3], [4, 5, 6], [0, 0, 0]],
        [[1, 2, 3], [4, 5, 6], [7, 8, 9]],
        [[10, 10, 10], [10, 5, 6], [10, 8, 9]], [[10, 10, 10], [10, 10, 10], [10, 10, 9]],
        [[10, 10, 10], [10, 10, 10], [10, 10, 10]]]
   \<and> contributions_to 1 2 (drop 3 (snd (assemble_volume_matrix_forms (vol_args_example 3)
         [unsym_form_example, sym_form_example] (buffer_example, [])))) = [6, 10, 10]
   \<and> contributions_to 2 1 (drop 3 (snd (assemble_volume_matrix_forms (vol_args_example 3)
         [unsym_form_example, sym_form_example] (buffer_example, [])))) = [8, 10, 10]"
  by (simp add: assemble_volume_matrix_forms_def assemble_one_form_def vol_args_example_def
      unsym_form_example_def sym_form_example_def buffer_example_def al_example_def
      get_matrix_buffer_def upt3 Let_def
      mat_add_def local_value_def contributions_to_def contributions_def)

text \<open>
  What does hold for an antisymmetric form between two spaces: every insertion of a
  transposed block follows an insertion at \<open>(m, n)\<close> and carries the negated transpose of
  what that insertion carried, so that the sums of all contributions to the entries
  \<open>(c, r)\<close> and \<open>(r, c)\<close> are opposite.
\<close>

lemma paired_append:
  "paired calls \<Longrightarrow> neg_transposed d t \<Longrightarrow> paired (calls @ [d, t])"
  by (induction calls rule: paired.induct) auto

lemma neg_transposed_mat_add:
  assumes "length rs = m" "length cs = n"
  shows "neg_transposed (mat_add m n buf rs cs)
           (mat_add n m (transpose_buffer (chsgn buf m n) m n) cs rs)"
  using assms by (auto simp: neg_transposed_def mat_add_def transpose_buffer_def chsgn_def)

lemma rows_loop_paired:
  assumes "mfv_i mfv \<noteq> mfv_j mfv" "mfv_sym mfv < 0"
  shows "paired calls \<Longrightarrow> paired (snd (rows_loop mat c mfv am an is (buf, calls)))"
proof (induction "is" arbitrary: buf calls)
  case Nil
  then show ?case by simp
next
  case (Cons i "is")
  define b1 where "b1 = unsym_row mat c mfv am an i [0..<length an] buf"
  define b2 where "b2 = transpose_buffer (chsgn b1 (length am) (length an)) (length am) (length an)"
  define calls' where "calls' = (if mat
      then calls @ [mat_add (length am) (length an) b1 (map dof am) (map dof an),
                    mat_add (length an) (length am) b2 (map dof an) (map dof am)]
      else calls)"
  have step: "rows_loop mat c mfv am an (i # is) (buf, calls) = rows_loop mat c mfv am an is (b2, calls')"
    using assms by (simp add: Let_def b1_def b2_def calls'_def)
  have "paired calls'"
    using Cons.prems by (simp add: calls'_def b2_def paired_append neg_transposed_mat_add)
  then show ?case unfolding step by (rule Cons.IH)
qed

lemma assemble_one_form_paired:
  assumes "mfv_i mfv \<noteq> mfv_j mfv" "mfv_sym mfv < 0"
  shows "paired (snd (assemble_one_form a mfv (mb, [])))"
proof -
  have "paired (snd (rows_loop mat c mfv am an is (buf, [])))" for mat c am an "is" buf
    using rows_loop_paired[OF assms, of "[]" mat c am an "is" buf] by simp
  then show ?thesis
    by (simp add: assemble_one_form_def Let_def split_beta)
qed

lemma sum_list_filter_concat:
  "sum_list (map f (filter P (concat (map g xs))))
     = sum_list (map (\<lambda>x. sum_list (map f (filter P (g x)))) xs)"
  by (induction xs) auto

lemma sum_list_swap:
  "sum_list (map (\<lambda>i. sum_list (map (\<lambda>j. F i j) js)) is)
     = sum_list (map (\<lambda>j. sum_list (map (\<lambda>i. (F i j :: real)) is)) js)"
proof (induction "is")
  case Nil
  show ?case by simp
next
  case (Cons x "is")
  show ?case by (simp add: Cons.IH sum_list_addf)
qed

lemma sum_list_neg: "sum_list (map (\<lambda>x. - f x) xs) = - sum_list (map f xs :: real list)"
  by (induction xs) auto

lemma single_contribution:
  "sum_list (map (\<lambda>(r', c', v). v) (filter (\<lambda>(r', c', v). r' = r \<and> c' = c)
       (if A then [(a, b, w)] else [])))
     = (if A \<and> a = r \<and> b = c then w else (0::real))"
  by simp

lemma entry_sum_double:
  "entry_sum d r c
     = sum_list (map (\<lambda>i. sum_list (map (\<lambda>j.
          if (rows d ! i \<ge> 0 \<and> cols d ! j \<ge> 0) \<and> rows d ! i = r \<and> cols d ! j = c
          then block d ! i ! j else 0) [0..<length (cols d)])) [0..<length (rows d)])"
  unfolding entry_sum_def contributions_to_def contributions_def
  by (simp only: list.map concat.simps append_Nil2 sum_list_filter_concat single_contribution)

lemma entry_sum_neg_transposed:
  assumes "neg_transposed d t"
  shows "entry_sum t c r = - entry_sum d r c"
proof -
  have "entry_sum t c r
      = sum_list (map (\<lambda>j. sum_list (map (\<lambda>i.
          - (if (rows d ! i \<ge> 0 \<and> cols d ! j \<ge> 0) \<and> rows d ! i = r \<and> cols d ! j = c
          then block d ! i ! j else 0)) [0..<length (rows d)])) [0..<length (cols d)])"
    using assms unfolding entry_sum_double neg_transposed_def
    by (auto intro!: arg_cong[where f = sum_list])
  also have "\<dots> = sum_list (map (\<lambda>i. sum_list (map (\<lambda>j.
          - (if (rows d ! i \<ge> 0 \<and> cols d ! j \<ge> 0) \<and> rows d ! i = r \<and> cols d ! j = c
          then block d ! i ! j else 0)) [0..<length (cols d)])) [0..<length (rows d)])"
    by (rule sum_list_swap[symmetric])
  also have "\<dots> = - entry_sum d r c"
    unfolding entry_sum_double by (simp only: sum_list_neg)
  finally show ?thesis .
qed

lemma contributions_to_Cons:
  "sum_list (contributions_to r c (d # calls)) = entry_sum d r c + sum_list (contributions_to r c calls)"
  by (simp add: entry_sum_def contributions_to_def)

lemma paired_antisymmetric:
  "paired calls \<Longrightarrow> sum_list (contributions_to c r calls) = - sum_list (contributions_to r c calls)"
proof (induction calls rule: paired.induct)
  case 1
  show ?case by (simp add: contributions_to_def)
next
  case (2 d)
  then show ?case by simp
next
  case (3 d t calls)
  then have nt: "neg_transposed d t" and ih: "sum_list (contributions_to c r calls)
      = - sum_list (contributions_to r c calls)" by auto
  show ?case
    using entry_sum_neg_transposed[OF nt, of c r] entry_sum_neg_transposed[OF nt, of r c] ih
    by (simp add: contributions_to_Cons)
qed

text \<open>
  C4 on the code. An antisymmetric form between the space with the DOFs 0, 1 and the
  space with the DOFs 10, 11, 12. The block the form computes is [[1, 2, 3], [4, 5, 6]];
  the negative of its transpose is due at the rows 10, 11, 12 and the columns 0, 1. The
  routine inserts after every row, and it negates and transposes the buffer in place before
  the next row is written into it: the second pair of insertions carries the first row
  once more, negated and transposed back. The entries (10, 0) and (12, 0) receive -1 + 1
  and -3 + 3 where -1 and -3 are due, and the entries (0, 10) and (0, 12) of the block
  itself receive 1 - 1 and 3 - 3.
\<close>

theorem antisymmetric_block_overwritten_in_place:
  "direct_block 1 antisym_form_example (al_example 2) (al_shifted_example 3) = [[1, 2, 3], [4, 5, 6]]
   \<and> neg_transpose 3 (direct_block 1 antisym_form_example (al_example 2) (al_shifted_example 3))
       = [[- 1, - 4], [- 2, - 5], [- 3, - 6]]
   \<and> map block (snd (assemble_volume_matrix_forms vol_args_two_spaces_example [antisym_form_example]
                       (buffer_example, [])))
       = [[[1, 2, 3], [0, 0, 0]], [[- 1, 0], [- 2, 0], [- 3, 0]],
          [[- 1, 0, - 3], [4, 5, 6]], [[1, - 4], [0, - 5], [3, - 6]]]
   \<and> contributions_to 10 0 (snd (assemble_volume_matrix_forms vol_args_two_spaces_example
         [antisym_form_example] (buffer_example, []))) = [- 1, 1]
   \<and> contributions_to 12 0 (snd (assemble_volume_matrix_forms vol_args_two_spaces_example
         [antisym_form_example] (buffer_example, []))) = [- 3, 3]
   \<and> contributions_to 0 10 (snd (assemble_volume_matrix_forms vol_args_two_spaces_example
         [antisym_form_example] (buffer_example, []))) = [1, - 1]
   \<and> contributions_to 0 12 (snd (assemble_volume_matrix_forms vol_args_two_spaces_example
         [antisym_form_example] (buffer_example, []))) = [3, - 3]"
  by (simp add: assemble_volume_matrix_forms_def assemble_one_form_def vol_args_two_spaces_example_def
      vol_args_example_def antisym_form_example_def buffer_example_def al_example_def
      al_shifted_example_def get_matrix_buffer_def upt3 Let_def mat_add_def local_value_def
      chsgn_def transpose_buffer_def contributions_to_def contributions_def direct_block_def
      neg_transpose_def)

section \<open>Theorems on the per-state assembly routine\<close>

text \<open>
  C10 on the code. A stage with two spaces and a state whose elements are all
  \<^verbatim>\<open>NULL\<close>: the routine returns right after \<open>init_state\<close>, and both assembly lists it
  allocated are still live. With \<^verbatim>\<open>e[0]\<close> usable the same call gives them back. With
  \<^verbatim>\<open>e[0]\<close> equal to \<^verbatim>\<open>NULL\<close> and a later element usable the call does not reach the
  deletion either: the header of the loop over the surfaces dereferences \<^verbatim>\<open>e[0]\<close>.
\<close>

theorem assembly_lists_live_after_empty_state:
  "init_state 2 [None, None] = None
   \<and> map_sum id live (assemble_one_state 2 2 [None, None] (\<lambda>h. h) (\<lambda>h. h) empty_heap) = Inr [0, 1]
   \<and> map_sum id live (assemble_one_state 2 2 [Some 5, None] (\<lambda>h. h) (\<lambda>h. h) empty_heap) = Inr []
   \<and> assemble_one_state 2 2 [None, Some 5] (\<lambda>h. h) (\<lambda>h. h) empty_heap = Inl Null_dereference"
  by (simp add: assemble_one_state_def empty_heap_def new_AsmList_def delete_AsmList_def
      numeral_2_eq_2)

section \<open>Theorems on the multimesh tree\<close>

subsection \<open>Insertion of the central paths\<close>

lemma next_labels_set:
  "set (next_labels ps p) = {q ! length p | q. q \<in> set ps \<and> length p < length q \<and> take (length p) q = p}"
  by (auto simp: next_labels_def)

lemma node_paths_set:
  "n \<noteq> NULL \<Longrightarrow> set (node_paths n)
     = {[get_transformation n]} \<union> (#) (get_transformation n) ` set (paths_below n)"
  by (cases n) (auto simp: paths_below_def)

lemma next_labels_image:
  "set (next_labels ps p) = (\<lambda>q. q ! length p) ` {q \<in> set ps. length p < length q \<and> take (length p) q = p}"
  by (auto simp: next_labels_def)

lemma next_labels_node_Nil:
  "set (next_labels (node_paths n) []) = (if n = NULL then {} else {get_transformation n})"
proof (cases n)
  case NULL
  then show ?thesis by (simp add: next_labels_def)
next
  case (NeighborNode t l r)
  have "{q \<in> set (node_paths n). 0 < length q} = set (node_paths n)"
    using NeighborNode by auto
  moreover have "(\<lambda>q. q ! 0) ` set (node_paths n) = {t}"
    using NeighborNode by (auto simp: image_iff)
  ultimately show ?thesis
    using NeighborNode by (simp add: next_labels_image)
qed

lemma next_labels_node_Cons:
  "set (next_labels (node_paths n) (x # p))
     = (if n \<noteq> NULL \<and> get_transformation n = x then set (next_labels (paths_below n) p) else {})"
proof (cases n)
  case NULL
  then show ?thesis by (simp add: next_labels_def)
next
  case (NeighborNode t l r)
  then have s: "set (node_paths n) = {[t]} \<union> (#) t ` set (paths_below n)"
    using node_paths_set[of n] by simp
  have "{q \<in> set (node_paths n). length (x # p) < length q \<and> take (length (x # p)) q = x # p}
      = (if t = x then (#) t ` {q \<in> set (paths_below n). length p < length q \<and> take (length p) q = p}
         else {})"
    unfolding s by auto
  then have "set (next_labels (node_paths n) (x # p))
      = (if t = x then set (next_labels (paths_below n) p) else {})"
    unfolding next_labels_image by (simp add: image_image)
  moreover have "n \<noteq> NULL" "get_transformation n = t"
    using NeighborNode by simp_all
  ultimately show ?thesis by (simp only: simp_thms if_True)
qed

lemma next_labels_append:
  "next_labels (a @ b) p = next_labels a p @ next_labels b p"
  by (simp add: next_labels_def)

lemma next_labels_below_Nil:
  "set (next_labels (paths_below (NeighborNode t l r)) [])
     = (if l = NULL then {} else {get_transformation l}) \<union> (if r = NULL then {} else {get_transformation r})"
  by (simp add: paths_below_def next_labels_append next_labels_node_Nil)

lemma next_labels_below_Cons:
  "set (next_labels (paths_below (NeighborNode t l r)) (x # p))
     = (if l \<noteq> NULL \<and> get_transformation l = x then set (next_labels (paths_below l) p) else {})
       \<union> (if r \<noteq> NULL \<and> get_transformation r = x then set (next_labels (paths_below r) p) else {})"
  by (simp add: paths_below_def next_labels_append next_labels_node_Cons)

lemma third_label_Cons:
  "third_label ps (x # xs)
     = ((2 \<le> card (set (next_labels ps [])) \<and> x \<notin> set (next_labels ps []))
        \<or> (\<exists>k < length xs. 2 \<le> card (set (next_labels ps (x # take k xs)))
                           \<and> xs ! k \<notin> set (next_labels ps (x # take k xs))))"
proof -
  have "(\<exists>k < Suc n. P k) = (P 0 \<or> (\<exists>k < n. P (Suc k)))" for P n
    by (metis less_Suc_eq_0_disj)
  then show ?thesis
    by (simp add: third_label_def length_remdups_card_conv)
qed

lemma third_label_Nil: "\<not> third_label ps []"
  by (simp add: third_label_def)

lemma third_label_empty: "\<not> third_label [] xs"
  by (simp add: third_label_def next_labels_def)

lemma nonempty_prefixes_Cons:
  "set (nonempty_prefixes (x # xs)) = {[x]} \<union> (#) x ` set (nonempty_prefixes xs)"
proof -
  have "set (nonempty_prefixes ys) = {take k ys | k. 0 < k \<and> k \<le> length ys}" for ys :: "nat list"
    by (auto simp: nonempty_prefixes_def)
  then have a: "set (nonempty_prefixes (x # xs)) = {take k (x # xs) | k. 0 < k \<and> k \<le> Suc (length xs)}"
    and b: "set (nonempty_prefixes xs) = {take k xs | k. 0 < k \<and> k \<le> length xs}"
    by simp_all
  show ?thesis
  proof (intro set_eqI iffI)
    fix p assume "p \<in> set (nonempty_prefixes (x # xs))"
    then obtain k where k: "0 < k" "k \<le> Suc (length xs)" "p = take k (x # xs)"
      unfolding a by auto
    then obtain j where j: "k = Suc j" by (cases k) auto
    show "p \<in> {[x]} \<union> (#) x ` set (nonempty_prefixes xs)"
    proof (cases j)
      case 0
      with k j show ?thesis by simp
    next
      case (Suc i)
      with k j have "p = x # take j xs" "0 < j" "j \<le> length xs" by simp_all
      then show ?thesis unfolding b by blast
    qed
  next
    fix p assume "p \<in> {[x]} \<union> (#) x ` set (nonempty_prefixes xs)"
    then consider "p = [x]" | j where "0 < j" "j \<le> length xs" "p = x # take j xs"
      unfolding b by auto
    then show "p \<in> set (nonempty_prefixes (x # xs))"
    proof cases
      case 1
      then have "p = take 1 (x # xs)" by simp
      moreover have "0 < (1::nat)" "(1::nat) \<le> Suc (length xs)" by simp_all
      ultimately show ?thesis unfolding a by blast
    next
      case 2
      then have "p = take (Suc j) (x # xs)" "0 < Suc j" "Suc j \<le> Suc (length xs)" by simp_all
      then show ?thesis unfolding a by blast
    qed
  qed
qed

lemma third_label_card:
  "third_label ps xs
     = (\<exists>k < length xs. 2 \<le> card (set (next_labels ps (take k xs)))
                        \<and> xs ! k \<notin> set (next_labels ps (take k xs)))"
  by (simp add: third_label_def length_remdups_card_conv)

lemma paths_below_sons:
  "set (paths_below (NeighborNode t l r)) = set (node_paths l) \<union> set (node_paths r)"
  by (simp add: paths_below_def)

lemma node_paths_grown:
  assumes "n \<noteq> NULL" "n' \<noteq> NULL" "get_transformation n' = get_transformation n"
    and "set (paths_below n') = set (paths_below n) \<union> set (nonempty_prefixes xs)"
  shows "set (node_paths n') = set (node_paths n) \<union> set (nonempty_prefixes (get_transformation n # xs))"
  using assms by (auto simp: node_paths_set nonempty_prefixes_Cons)

text \<open>
  One insertion into a tree of that shape: it is fatal exactly when the path brings a
  third label to one of the positions it passes, and otherwise it adds the path with its
  prefixes to the positions of the tree and nothing else.
\<close>

lemma insert_into_multimesh_tree_paths:
  "left_first node \<Longrightarrow> node \<noteq> NULL \<Longrightarrow>
   (third_label (paths_below node) xs \<longrightarrow> insert_into_multimesh_tree node xs = Inl More_than_two_sons)
   \<and> (\<not> third_label (paths_below node) xs \<longrightarrow>
        (\<exists>node'. insert_into_multimesh_tree node xs = Inr node' \<and> left_first node' \<and> node' \<noteq> NULL
           \<and> get_transformation node' = get_transformation node
           \<and> set (paths_below node') = set (paths_below node) \<union> set (nonempty_prefixes xs)))"
proof (induction xs arbitrary: node)
  case Nil
  then show ?case by (simp add: third_label_Nil nonempty_prefixes_def)
next
  case (Cons x xs)
  from Cons.prems(2) obtain t l r where node: "node = NeighborNode t l r" by (cases node) auto
  have "\<not> third_label (paths_below (NeighborNode x NULL NULL)) xs"
    by (simp add: paths_below_def third_label_empty)
  with Cons.IH[of "NeighborNode x NULL NULL"]
  obtain leaf where leaf: "insert_into_multimesh_tree (NeighborNode x NULL NULL) xs = Inr leaf"
    "left_first leaf" "leaf \<noteq> NULL" "get_transformation leaf = x"
    "set (paths_below leaf) = set (nonempty_prefixes xs)"
    by (auto simp: paths_below_def)
  have leaf_paths: "set (node_paths leaf) = set (nonempty_prefixes (x # xs))"
    using leaf by (auto simp: node_paths_set nonempty_prefixes_Cons)
  show ?case
  proof (cases "l = NULL")
    case True
    with Cons.prems(1) node have r: "r = NULL" by auto
    have "\<not> third_label (paths_below node) (x # xs)"
      using node True r by (simp add: paths_below_def third_label_empty)
    moreover have "insert_into_multimesh_tree node (x # xs) = Inr (NeighborNode t leaf NULL)"
      using node True r leaf by simp
    moreover have "set (paths_below (NeighborNode t leaf NULL))
        = set (paths_below node) \<union> set (nonempty_prefixes (x # xs))"
      using node True r leaf_paths by (simp add: paths_below_def)
    ultimately show ?thesis using leaf node by simp
  next
    case l: False
    then obtain lt ll lr where lc: "l = NeighborNode lt ll lr" by (cases l) auto
    show ?thesis
    proof (cases "get_transformation l = x")
      case True
      have rx: "r \<noteq> NULL \<longrightarrow> get_transformation r \<noteq> x"
        using Cons.prems(1) node True by auto
      have tl: "third_label (paths_below node) (x # xs) = third_label (paths_below l) xs"
        unfolding third_label_Cons third_label_card [of "paths_below l"] node
          next_labels_below_Nil next_labels_below_Cons
        using l True rx by auto
      have ins: "insert_into_multimesh_tree node (x # xs)
          = (case insert_into_multimesh_tree l xs of Inl e \<Rightarrow> Inl e
             | Inr l' \<Rightarrow> Inr (NeighborNode t l' r))"
        using node lc True by (simp split: sum.split)
      from Cons.prems(1) node have lf: "left_first l" by simp
      show ?thesis
      proof (cases "third_label (paths_below l) xs")
        case tt: True
        with Cons.IH[OF lf l] have "insert_into_multimesh_tree l xs = Inl More_than_two_sons" by blast
        with tl tt ins show ?thesis by simp
      next
        case ff: False
        with Cons.IH[OF lf l] obtain l' where l': "insert_into_multimesh_tree l xs = Inr l'"
          "left_first l'" "l' \<noteq> NULL" "get_transformation l' = get_transformation l"
          "set (paths_below l') = set (paths_below l) \<union> set (nonempty_prefixes xs)"
          by blast
        have "set (node_paths l') = set (node_paths l) \<union> set (nonempty_prefixes (x # xs))"
          using node_paths_grown[OF l l'(3,4,5)] True by simp
        then have "set (paths_below (NeighborNode t l' r))
            = set (paths_below node) \<union> set (nonempty_prefixes (x # xs))"
          unfolding node paths_below_sons by auto
        moreover have "left_first (NeighborNode t l' r)"
          using Cons.prems(1) node l' by simp
        ultimately show ?thesis using tl ff ins l'(1) node by simp
      qed
    next
      case lx: False
      show ?thesis
      proof (cases "r = NULL")
        case True
        have "\<not> third_label (paths_below node) (x # xs)"
          unfolding third_label_Cons node next_labels_below_Nil next_labels_below_Cons
          using l lx True by simp
        moreover have "insert_into_multimesh_tree node (x # xs) = Inr (NeighborNode t l leaf)"
          using node lc lx True leaf by simp
        moreover have "set (paths_below (NeighborNode t l leaf))
            = set (paths_below node) \<union> set (nonempty_prefixes (x # xs))"
          unfolding node paths_below_sons using True leaf_paths by simp
        moreover have "left_first (NeighborNode t l leaf)"
          using Cons.prems(1) node leaf l lx by simp
        ultimately show ?thesis using node by simp
      next
        case r: False
        show ?thesis
        proof (cases "get_transformation r = x")
          case False
          have d: "get_transformation r \<noteq> get_transformation l"
            using Cons.prems(1) node r by simp
          have "third_label (paths_below node) (x # xs)"
            unfolding third_label_Cons node next_labels_below_Nil
            using l r lx False d by simp
          moreover have "insert_into_multimesh_tree node (x # xs) = Inl More_than_two_sons"
            using node lc lx r False by simp
          ultimately show ?thesis by simp
        next
          case True
          have tl: "third_label (paths_below node) (x # xs) = third_label (paths_below r) xs"
            unfolding third_label_Cons third_label_card [of "paths_below r"] node
              next_labels_below_Nil next_labels_below_Cons
            using l r lx True by auto
          have ins: "insert_into_multimesh_tree node (x # xs)
              = (case insert_into_multimesh_tree r xs of Inl e \<Rightarrow> Inl e
                 | Inr r' \<Rightarrow> Inr (NeighborNode t l r'))"
            using node lc lx r True by (simp split: sum.split)
          from Cons.prems(1) node have rf: "left_first r" by simp
          show ?thesis
          proof (cases "third_label (paths_below r) xs")
            case tt: True
            with Cons.IH[OF rf r] have "insert_into_multimesh_tree r xs = Inl More_than_two_sons" by blast
            with tl tt ins show ?thesis by simp
          next
            case ff: False
            with Cons.IH[OF rf r] obtain r' where r': "insert_into_multimesh_tree r xs = Inr r'"
              "left_first r'" "r' \<noteq> NULL" "get_transformation r' = get_transformation r"
              "set (paths_below r') = set (paths_below r) \<union> set (nonempty_prefixes xs)"
              by blast
            have "set (node_paths r') = set (node_paths r) \<union> set (nonempty_prefixes (x # xs))"
              using node_paths_grown[OF r r'(3,4,5)] True by simp
            then have "set (paths_below (NeighborNode t l r'))
                = set (paths_below node) \<union> set (nonempty_prefixes (x # xs))"
              unfolding node paths_below_sons by auto
            moreover have "left_first (NeighborNode t l r')"
              using Cons.prems(1) node r' r by simp
            ultimately show ?thesis using tl ff ins r'(1) node by simp
          qed
        qed
      qed
    qed
  qed
qed

lemma left_first_two_labels:
  "left_first n \<Longrightarrow> card (set (next_labels (paths_below n) p)) \<le> 2"
proof (induction p arbitrary: n)
  case Nil
  show ?case
  proof (cases n)
    case NULL
    then show ?thesis by (simp add: paths_below_def next_labels_def)
  next
    case (NeighborNode t l r)
    have "card ({a} \<union> {b}) \<le> 2" for a b :: nat
      by (simp add: card_insert_if)
    then show ?thesis
      unfolding NeighborNode next_labels_below_Nil by (auto simp: card_insert_if)
  qed
next
  case (Cons x p)
  show ?case
  proof (cases n)
    case NULL
    then show ?thesis by (simp add: paths_below_def next_labels_def)
  next
    case (NeighborNode t l r)
    with Cons.prems have lf: "left_first l" "left_first r"
      and d: "r \<noteq> NULL \<longrightarrow> l \<noteq> NULL \<and> get_transformation r \<noteq> get_transformation l"
      by simp_all
    consider (left) "l \<noteq> NULL" "get_transformation l = x"
      | (right) "\<not> (l \<noteq> NULL \<and> get_transformation l = x)" "r \<noteq> NULL" "get_transformation r = x"
      | (none) "\<not> (l \<noteq> NULL \<and> get_transformation l = x)" "\<not> (r \<noteq> NULL \<and> get_transformation r = x)"
      by blast
    then show ?thesis
    proof cases
      case left
      with d have "set (next_labels (paths_below n) (x # p)) = set (next_labels (paths_below l) p)"
        unfolding NeighborNode next_labels_below_Cons by auto
      with Cons.IH[OF lf(1)] show ?thesis by simp
    next
      case right
      then have "set (next_labels (paths_below n) (x # p)) = set (next_labels (paths_below r) p)"
        unfolding NeighborNode next_labels_below_Cons by auto
      with Cons.IH[OF lf(2)] show ?thesis by simp
    next
      case none
      then have "set (next_labels (paths_below n) (x # p)) = {}"
        unfolding NeighborNode next_labels_below_Cons by auto
      then show ?thesis by simp
    qed
  qed
qed

lemma next_labels_cong:
  "set ps = set ps' \<Longrightarrow> set (next_labels ps p) = set (next_labels ps' p)"
  by (simp add: next_labels_set)

lemma nonempty_prefixes_set:
  "set (nonempty_prefixes ys) = {take k ys | k. 0 < k \<and> k \<le> length ys}"
  by (auto simp: nonempty_prefixes_def)

lemma next_labels_prefixes:
  "set (next_labels (concat (map nonempty_prefixes ps)) p) = set (next_labels ps p)"
proof (intro set_eqI iffI)
  fix a assume "a \<in> set (next_labels (concat (map nonempty_prefixes ps)) p)"
  then obtain q k where q: "q \<in> set ps" "0 < k" "k \<le> length q" "length p < length (take k q)"
    "take (length p) (take k q) = p" "a = take k q ! length p"
    by (auto simp: next_labels_set nonempty_prefixes_set)
  then have "length p < length q" "take (length p) q = p" "a = q ! length p"
    by (auto simp: min_def split: if_splits)
  with q(1) show "a \<in> set (next_labels ps p)" by (auto simp: next_labels_set)
next
  fix a assume "a \<in> set (next_labels ps p)"
  then obtain q where q: "q \<in> set ps" "length p < length q" "take (length p) q = p" "a = q ! length p"
    by (auto simp: next_labels_set)
  then have "take (length q) q \<in> set (nonempty_prefixes q)"
    unfolding nonempty_prefixes_set by (intro CollectI exI[of _ "length q"]) auto
  then have "q \<in> set (concat (map nonempty_prefixes ps))" using q(1) by auto
  with q show "a \<in> set (next_labels (concat (map nonempty_prefixes ps)) p)"
    by (auto simp: next_labels_set)
qed

text \<open>
  A tree of that shape whose positions are the prefixes of the paths \<open>ps\<close>: the paths have
  at most two labels per position.
\<close>

lemma tree_at_most_two_labels:
  assumes "left_first rt" "set (paths_below rt) = set (concat (map nonempty_prefixes ps))"
  shows "at_most_two_labels ps"
proof -
  have "card (set (next_labels ps p)) \<le> 2" for p
    using left_first_two_labels[OF assms(1), of p] next_labels_cong[OF assms(2), of p]
    by (simp add: next_labels_prefixes)
  then show ?thesis
    by (simp add: at_most_two_labels_def length_remdups_card_conv)
qed

lemma third_label_not_at_most_two:
  assumes t: "third_label (paths_below rt) q"
    and s: "set (paths_below rt) = set (concat (map nonempty_prefixes ps0))"
    and q: "q \<in> set ps" "set ps0 \<subseteq> set ps"
  shows "\<not> at_most_two_labels ps"
proof
  assume a: "at_most_two_labels ps"
  from t obtain k where k: "k < length q" "2 \<le> card (set (next_labels (paths_below rt) (take k q)))"
    "q ! k \<notin> set (next_labels (paths_below rt) (take k q))"
    unfolding third_label_card by blast
  have e: "set (next_labels (paths_below rt) (take k q)) = set (next_labels ps0 (take k q))"
    using next_labels_cong[OF s] by (simp add: next_labels_prefixes)
  have sub: "set (next_labels ps0 (take k q)) \<subseteq> set (next_labels ps (take k q))"
    using q(2) by (auto simp: next_labels_set)
  have mem: "q ! k \<in> set (next_labels ps (take k q))"
    using q(1) k(1) by (auto simp: next_labels_set intro!: exI[of _ q])
  have "insert (q ! k) (set (next_labels ps0 (take k q))) \<subseteq> set (next_labels ps (take k q))"
    using sub mem by simp
  then have "card (insert (q ! k) (set (next_labels ps0 (take k q)))) \<le> card (set (next_labels ps (take k q)))"
    by (intro card_mono) simp_all
  moreover have "card (insert (q ! k) (set (next_labels ps0 (take k q)))) \<ge> 3"
    using k(2,3) unfolding e by simp
  moreover have "card (set (next_labels ps (take k q))) \<le> 2"
    using a q(1) k(1) by (auto simp: at_most_two_labels_def length_remdups_card_conv)
  ultimately show False by simp
qed

lemma insert_paths_characterised:
  "left_first rt \<Longrightarrow> rt \<noteq> NULL \<Longrightarrow> set (paths_below rt) = set (concat (map nonempty_prefixes ps0)) \<Longrightarrow>
   (at_most_two_labels (ps0 @ ps) \<longrightarrow>
      (\<exists>rt'. insert_paths rt ps = Inr rt' \<and> left_first rt' \<and> rt' \<noteq> NULL
         \<and> set (paths_below rt') = set (concat (map nonempty_prefixes (ps0 @ ps)))))
   \<and> (\<not> at_most_two_labels (ps0 @ ps) \<longrightarrow> insert_paths rt ps = Inl More_than_two_sons)"
proof (induction ps arbitrary: rt ps0)
  case Nil
  then show ?case using tree_at_most_two_labels[of rt ps0] by simp
next
  case (Cons q ps)
  show ?case
  proof (cases "third_label (paths_below rt) q")
    case True
    with insert_into_multimesh_tree_paths[OF Cons.prems(1,2), of q]
    have "insert_paths rt (q # ps) = Inl More_than_two_sons" by simp
    moreover have "\<not> at_most_two_labels (ps0 @ q # ps)"
      by (rule third_label_not_at_most_two[OF True Cons.prems(3)]) auto
    ultimately show ?thesis by simp
  next
    case False
    with insert_into_multimesh_tree_paths[OF Cons.prems(1,2), of q]
    obtain rt' where rt': "insert_into_multimesh_tree rt q = Inr rt'" "left_first rt'" "rt' \<noteq> NULL"
      "set (paths_below rt') = set (paths_below rt) \<union> set (nonempty_prefixes q)"
      by blast
    have "set (paths_below rt') = set (concat (map nonempty_prefixes (ps0 @ [q])))"
      using rt'(4) Cons.prems(3) by simp
    from Cons.IH[OF rt'(2,3) this] rt'(1) show ?thesis by simp
  qed
qed

lemma insert_paths_append:
  "insert_paths rt (a @ b)
     = (case insert_paths rt a of Inl e \<Rightarrow> Inl e | Inr rt' \<Rightarrow> insert_paths rt' b)"
  by (induction a arbitrary: rt) (auto split: sum.splits)

lemma build_multimesh_tree_insert_paths:
  "build_multimesh_tree rt nss = insert_paths rt (all_central_paths nss)"
proof (induction nss arbitrary: rt)
  case Nil
  show ?case by (simp add: all_central_paths_def)
next
  case (Cons s nss)
  show ?case
  proof (cases s)
    case None
    then show ?thesis using Cons.IH by (simp add: all_central_paths_def)
  next
    case (Some ns)
    show ?thesis
    proof (cases "n_neighbors ns = 1 \<and> length (central_transformations (neighbors ns ! 0)) = 0")
      case True
      then obtain nb where "neighbors ns = [nb]" "central_transformations nb = []"
        by (cases "neighbors ns") (auto simp: n_neighbors_def)
      then show ?thesis
        using Some True Cons.IH[of rt] by (simp add: all_central_paths_def)
    next
      case False
      have "all_central_paths (s # nss) = map central_transformations (neighbors ns) @ all_central_paths nss"
        using Some by (simp add: all_central_paths_def)
      moreover have "build_multimesh_tree rt (s # nss)
          = (case insert_paths rt (map central_transformations (neighbors ns)) of
               Inl e \<Rightarrow> Inl e | Inr rt' \<Rightarrow> build_multimesh_tree rt' nss)"
        using Some False by auto
      ultimately show ?thesis
        by (simp add: insert_paths_append Cons.IH split: sum.split)
    qed
  qed
qed

text \<open>
  C7. While a central path is inserted into the multimesh tree, a third distinct label at
  one node is fatal: at the node the insertion starts from (both sons exist, neither
  carries the incoming label), and at every node the insertion passes, that is whenever
  the path brings a third label to a position of the tree. Otherwise the insertion
  succeeds, keeps the shape of the tree and adds exactly the path with its prefixes to
  the positions of the tree. Hence \<open>build_multimesh_tree\<close> succeeds for every set of paths
  with at most two distinct labels per position, with the tree of all their prefixes,
  and is fatal for every other set of paths.
\<close>

theorem insert_into_multimesh_tree_labels:
  "(l \<noteq> NULL \<and> r \<noteq> NULL \<and> get_transformation l \<noteq> x \<and> get_transformation r \<noteq> x
      \<longrightarrow> insert_into_multimesh_tree (NeighborNode t l r) (x # xs) = Inl More_than_two_sons)
   \<and> (left_first node \<and> node \<noteq> NULL \<and> third_label (paths_below node) ys
      \<longrightarrow> insert_into_multimesh_tree node ys = Inl More_than_two_sons)
   \<and> (left_first node \<and> node \<noteq> NULL \<and> \<not> third_label (paths_below node) ys
      \<longrightarrow> (\<exists>node'. insert_into_multimesh_tree node ys = Inr node' \<and> left_first node' \<and> node' \<noteq> NULL
             \<and> get_transformation node' = get_transformation node
             \<and> set (paths_below node') = set (paths_below node) \<union> set (nonempty_prefixes ys)))
   \<and> (at_most_two_labels (all_central_paths nss)
      \<longrightarrow> (\<exists>tree. build_multimesh_tree (NeighborNode 0 NULL NULL) nss = Inr tree \<and> left_first tree
             \<and> set (paths_below tree) = set (concat (map nonempty_prefixes (all_central_paths nss)))))
   \<and> (\<not> at_most_two_labels (all_central_paths nss)
      \<longrightarrow> build_multimesh_tree (NeighborNode 0 NULL NULL) nss = Inl More_than_two_sons)"
proof (intro conjI impI)
  assume "l \<noteq> NULL \<and> r \<noteq> NULL \<and> get_transformation l \<noteq> x \<and> get_transformation r \<noteq> x"
  then show "insert_into_multimesh_tree (NeighborNode t l r) (x # xs) = Inl More_than_two_sons"
    by (cases l) auto
next
  assume "left_first node \<and> node \<noteq> NULL \<and> third_label (paths_below node) ys"
  then show "insert_into_multimesh_tree node ys = Inl More_than_two_sons"
    using insert_into_multimesh_tree_paths[of node ys] by blast
next
  assume "left_first node \<and> node \<noteq> NULL \<and> \<not> third_label (paths_below node) ys"
  then show "\<exists>node'. insert_into_multimesh_tree node ys = Inr node' \<and> left_first node' \<and> node' \<noteq> NULL
             \<and> get_transformation node' = get_transformation node
             \<and> set (paths_below node') = set (paths_below node) \<union> set (nonempty_prefixes ys)"
    using insert_into_multimesh_tree_paths[of node ys] by blast
next
  have root: "left_first (NeighborNode 0 NULL NULL)" "NeighborNode 0 NULL NULL \<noteq> NULL"
    "set (paths_below (NeighborNode 0 NULL NULL)) = set (concat (map nonempty_prefixes []))"
    by (simp_all add: paths_below_def)
  note ch = insert_paths_characterised[OF root, of "all_central_paths nss", simplified]
  {
    assume "at_most_two_labels (all_central_paths nss)"
    with ch show "\<exists>tree. build_multimesh_tree (NeighborNode 0 NULL NULL) nss = Inr tree \<and> left_first tree
             \<and> set (paths_below tree) = set (concat (map nonempty_prefixes (all_central_paths nss)))"
      unfolding build_multimesh_tree_insert_paths by auto
  next
    assume "\<not> at_most_two_labels (all_central_paths nss)"
    with ch show "build_multimesh_tree (NeighborNode 0 NULL NULL) nss = Inl More_than_two_sons"
      unfolding build_multimesh_tree_insert_paths by blast
  }
qed

lemma example_tree_paths:
  "left_first example_tree"
  "paths_below example_tree = [[0], [0, 0], [0, 1], [1]]"
  by (simp_all add: example_tree_def paths_below_def)

lemma example_third_label_inner:
  "third_label [[0], [0, 0], [0, 1], [1]] [0, 7]"
proof -
  have "Suc 0 < length [0, 7::nat] \<and> 2 \<le> length (remdups (next_labels [[0], [0, 0], [0, 1], [1]] (take (Suc 0) [0, 7])))
      \<and> [0, 7] ! Suc 0 \<notin> set (next_labels [[0], [0, 0], [0, 1], [1]] (take (Suc 0) [0, 7]))"
    by (simp add: next_labels_def)
  then show ?thesis
    unfolding third_label_def by blast
qed

lemma example_third_label_none:
  "\<not> third_label [[0], [0, 0], [0, 1], [1]] [1, 5]"
  unfolding third_label_def
proof (intro notI, elim exE conjE)
  fix k
  assume k: "k < length [1, 5::nat]"
    and two: "2 \<le> length (remdups (next_labels [[0], [0, 0], [0, 1], [1]] (take k [1, 5])))"
    and new: "[1, 5] ! k \<notin> set (next_labels [[0], [0, 0], [0, 1], [1]] (take k [1, 5]))"
  from k consider "k = 0" | "k = Suc 0" by (auto simp: less_Suc_eq)
  then show False
  proof cases
    case 1
    with new show False by (simp add: next_labels_def)
  next
    case 2
    with two show False by (simp add: next_labels_def)
  qed
qed

lemma example_at_most_two_labels:
  "at_most_two_labels (all_central_paths [Some ns_coarse, Some ns_fine])"
  "\<not> at_most_two_labels (all_central_paths [Some ns_fine, Some ns_third])"
  by (simp_all add: at_most_two_labels_def all_central_paths_def ns_coarse_def ns_fine_def ns_third_def
        example_neighbor_def next_labels_def less_Suc_eq)

theorem insert_into_multimesh_tree_labels_witness:
  "insert_into_multimesh_tree example_tree [2] = Inl More_than_two_sons
   \<and> left_first example_tree \<and> example_tree \<noteq> NULL
   \<and> third_label (paths_below example_tree) [0, 7]
   \<and> insert_into_multimesh_tree example_tree [0, 7] = Inl More_than_two_sons
   \<and> \<not> third_label (paths_below example_tree) [1, 5]
   \<and> (\<exists>node'. insert_into_multimesh_tree example_tree [1, 5] = Inr node'
         \<and> set (paths_below node') = {[0], [0, 0], [0, 1], [1], [1, 5]})
   \<and> at_most_two_labels (all_central_paths [Some ns_coarse, Some ns_fine])
   \<and> (\<exists>tree. build_multimesh_tree (NeighborNode 0 NULL NULL) [Some ns_coarse, Some ns_fine] = Inr tree
         \<and> set (paths_below tree) = {[0], [0, 0], [0, 1], [1]})
   \<and> \<not> at_most_two_labels (all_central_paths [Some ns_fine, Some ns_third])
   \<and> build_multimesh_tree (NeighborNode 0 NULL NULL) [Some ns_fine, Some ns_third] = Inl More_than_two_sons"
proof -
  have nn: "example_tree \<noteq> NULL" by (simp add: example_tree_def)
  have a: "insert_into_multimesh_tree example_tree [2] = Inl More_than_two_sons"
    using insert_into_multimesh_tree_labels
      [of "NeighborNode 0 (NeighborNode 0 NULL NULL) (NeighborNode 1 NULL NULL)" "NeighborNode 1 NULL NULL"
        2 0 "[]"]
    by (simp add: example_tree_def)
  have t1: "third_label (paths_below example_tree) [0, 7]"
    and t2: "\<not> third_label (paths_below example_tree) [1, 5]"
    unfolding example_tree_paths(2) by (rule example_third_label_inner, rule example_third_label_none)
  have b: "insert_into_multimesh_tree example_tree [0, 7] = Inl More_than_two_sons"
    using insert_into_multimesh_tree_labels [where node = example_tree and ys = "[0, 7]"]
      example_tree_paths(1) nn t1
    by blast
  have "\<exists>node'. insert_into_multimesh_tree example_tree [1, 5] = Inr node'
         \<and> set (paths_below node') = set (paths_below example_tree) \<union> set (nonempty_prefixes [1, 5])"
    using insert_into_multimesh_tree_labels [where node = example_tree and ys = "[1, 5]"]
      example_tree_paths(1) nn t2
    by blast
  moreover have "set (paths_below example_tree) \<union> set (nonempty_prefixes [1, 5])
      = {[0], [0, 0], [0, 1], [1], [1, 5]}"
    by (auto simp: example_tree_paths nonempty_prefixes_def upt_conv_Cons)
  ultimately have c: "\<exists>node'. insert_into_multimesh_tree example_tree [1, 5] = Inr node'
         \<and> set (paths_below node') = {[0], [0, 0], [0, 1], [1], [1, 5]}"
    by simp
  have "\<exists>tree. build_multimesh_tree (NeighborNode 0 NULL NULL) [Some ns_coarse, Some ns_fine] = Inr tree
         \<and> set (paths_below tree)
             = set (concat (map nonempty_prefixes (all_central_paths [Some ns_coarse, Some ns_fine])))"
    using insert_into_multimesh_tree_labels [where nss = "[Some ns_coarse, Some ns_fine]"]
      example_at_most_two_labels(1)
    by blast
  moreover have "set (concat (map nonempty_prefixes (all_central_paths [Some ns_coarse, Some ns_fine])))
      = {[0], [0, 0], [0, 1], [1]}"
    by (auto simp: all_central_paths_def ns_coarse_def ns_fine_def example_neighbor_def
        nonempty_prefixes_def upt_conv_Cons)
  ultimately have d: "\<exists>tree. build_multimesh_tree (NeighborNode 0 NULL NULL) [Some ns_coarse, Some ns_fine] = Inr tree
         \<and> set (paths_below tree) = {[0], [0, 0], [0, 1], [1]}"
    by simp
  have e: "build_multimesh_tree (NeighborNode 0 NULL NULL) [Some ns_fine, Some ns_third] = Inl More_than_two_sons"
    using insert_into_multimesh_tree_labels [where nss = "[Some ns_fine, Some ns_third]"]
      example_at_most_two_labels(2)
    by blast
  show ?thesis
    using a b c d e nn t1 t2 example_tree_paths(1) example_at_most_two_labels by blast
qed

subsection \<open>The update of the neighbor searches\<close>

lemma example_update_coarse:
  "update_neighbor_search ns_coarse example_tree = Inr ns_coarse_updated"
  by (simp add: update_neighbor_search_def n_neighbors_def ns_coarse_def example_tree_def
      ns_coarse_updated_def
      example_neighbor_def update_neighbor_search_loop.simps update_ns_subtree_def
      delete_neighbor_def neighbor_label_def Let_def)

lemma example_counts:
  "n_neighbors ns_coarse_updated = 3" "n_neighbors ns_fine = 3" "n_neighbors ns_none = 0"
  by (simp_all add: n_neighbors_def ns_coarse_updated_def ns_fine_def ns_none_def)

lemma example_update_fine:
  "update_neighbor_search ns_fine example_tree = Inr ns_fine"
  by (simp add: update_neighbor_search_def n_neighbors_def ns_fine_def example_tree_def
      example_neighbor_def update_neighbor_search_loop.simps update_ns_subtree_def)

lemma example_update_none:
  "update_neighbor_search ns_none rt = Inr ns_none"
  by (simp add: update_neighbor_search_def n_neighbors_def ns_none_def
      update_neighbor_search_loop.simps)

lemma example_build:
  "build_multimesh_tree (NeighborNode 0 NULL NULL) [Some ns_coarse, Some ns_fine] = Inr example_tree"
  "build_multimesh_tree (NeighborNode 0 NULL NULL) [Some ns_none, Some ns_fine] = Inr example_tree"
  by (simp_all add: n_neighbors_def ns_coarse_def ns_fine_def ns_none_def example_tree_def
      example_neighbor_def)


lemma traverse_multimesh_subtree_paths:
  "traverse_multimesh_subtree node rc rn edge_info act_edge mode =
     (rc\<lparr>done_paths := done_paths rc @ map ((@) (back_path rc)) (paths_through node)\<rparr>,
      rn\<lparr>done_paths := done_paths rn
         @ map (\<lambda>p. back_path rn @ map (neighbor_label mode act_edge edge_info) p) (paths_through node)\<rparr>)"
proof (induction node arbitrary: rc rn)
  case NULL
  show ?case by simp
next
  case (NeighborNode t l r)
  show ?case
  proof (cases "l = NULL \<and> r = NULL")
    case True
    then show ?thesis by simp
  next
    case False
    then show ?thesis
      by (cases "l = NULL"; cases "r = NULL")
        (simp_all add: NeighborNode.IH Let_def comp_def)
  qed
qed

lemma paths_through_nonempty: "node \<noteq> NULL \<Longrightarrow> paths_through node \<noteq> []"
  by (induction node) auto

lemma update_ns_subtree_leaf:
  "update_ns_subtree ns (NeighborNode t NULL NULL) i = Inr (ns, 0)"
  by (simp add: update_ns_subtree_def)

lemma update_ns_subtree_inner:
  assumes "l \<noteq> NULL"
  shows "update_ns_subtree ns (NeighborNode t l r) i
      = Inr (ns\<lparr>neighbors := (take i (neighbors ns) @ drop (Suc i) (neighbors ns))
          @ map (\<lambda>p. \<lparr>neighbor_el = neighbor_el (neighbors ns ! i),
                       neighbor_edge = neighbor_edge (neighbors ns ! i),
                       central_transformations = central_transformations (neighbors ns ! i) @ p,
                       neighbor_transformations = neighbor_transformations (neighbors ns ! i)
                         @ map (neighbor_label (central_el_mode ns) (active_edge ns)
                                  (neighbor_edge (neighbors ns ! i))) p\<rparr>)
              (leaf_paths (NeighborNode t l r))\<rparr>, - 1)"
  using assms
  by (cases "r = NULL")
    (simp_all add: update_ns_subtree_def Let_def traverse_multimesh_subtree_paths delete_neighbor_def
      leaf_paths_def zip_same_conv_map comp_def split_beta zip_map_map)

lemma leaf_paths_inner_nonempty: "l \<noteq> NULL \<Longrightarrow> leaf_paths (NeighborNode t l r) \<noteq> []"
  using paths_through_nonempty[of l] by (simp add: leaf_paths_def)

lemma word32_of_nat_less:
  "a < b \<Longrightarrow> b < 2 ^ 32 \<Longrightarrow> (word_of_nat a :: 32 word) < word_of_nat b"
  by (simp add: word_less_nat_alt unat_of_nat take_bit_nat_eq_self)

lemma word32_unat_of_nat: "a < 2 ^ 32 \<Longrightarrow> unat (word_of_nat a :: 32 word) = a"
  by (simp add: unat_of_nat take_bit_nat_eq_self)

lemma find_node_leaf_cases:
  assumes "update_ns_subtree ns node i = Inr (ns1, added)"
  shows "(\<exists>t. node = NeighborNode t NULL NULL) \<or> (\<exists>t l r. node = NeighborNode t l r \<and> l \<noteq> NULL)"
  using assms by (cases node) (auto simp: update_ns_subtree_def split: if_splits)

lemma update_loop_paths:
  assumes "update_neighbor_search_loop rt ns (word_of_nat (length kept))
             (word_of_nat (length kept + length rem)) = Inr ns'"
    and "neighbors ns = kept @ rem @ app"
    and "length kept + length rem < 2 ^ 32"
  shows "map central_transformations (neighbors ns')
           = map central_transformations kept
             @ filter (ends_at_leaf rt) (map central_transformations rem)
             @ map central_transformations app
             @ concat (map (replaced_paths rt)
                 (filter (\<lambda>p. \<not> ends_at_leaf rt p) (map central_transformations rem)))
         \<and> (kept @ rem @ app \<noteq> [] \<longrightarrow> neighbors ns' \<noteq> [])"
  using assms
proof (induction rem arbitrary: ns kept app)
  case Nil
  from Nil.prems(1) have "ns' = ns"
    by (subst (asm) update_neighbor_search_loop.simps) simp
  then show ?case using Nil.prems(2) by simp
next
  case (Cons e rem)
  let ?i = "word_of_nat (length kept) :: 32 word"
  let ?num = "word_of_nat (length kept + length (e # rem)) :: 32 word"
  have lt: "?i < ?num" using Cons.prems(3) by (intro word32_of_nat_less) auto
  have ui: "unat ?i = length kept" using Cons.prems(3) by (intro word32_unat_of_nat) auto
  have ei: "neighbors ns ! length kept = e" using Cons.prems(2) by simp
  from Cons.prems(1) lt ui ei obtain node ns1 added where
    fn: "find_node (central_transformations e) rt = Inr node"
    and up: "update_ns_subtree ns node (length kept) = Inr (ns1, added)"
    and rec: "update_neighbor_search_loop rt ns1 (?i + added + 1) (?num + added) = Inr ns'"
    by (subst (asm) update_neighbor_search_loop.simps) (auto split: sum.splits)
  from find_node_leaf_cases[OF up] show ?case
  proof (elim disjE exE conjE)
    fix t assume node: "node = NeighborNode t NULL NULL"
    with up have e1: "ns1 = ns" "added = 0" by (simp_all add: update_ns_subtree_leaf)
    have leaf: "ends_at_leaf rt (central_transformations e)"
      using fn node by (simp add: ends_at_leaf_def)
    have i': "?i + 0 + 1 = word_of_nat (length (kept @ [e]))" by simp
    have n': "?num + 0 = word_of_nat (length (kept @ [e]) + length rem)" by simp
    have rec': "update_neighbor_search_loop rt ns (word_of_nat (length (kept @ [e])))
        (word_of_nat (length (kept @ [e]) + length rem)) = Inr ns'"
      using rec unfolding e1 i' n' .
    from Cons.IH[OF rec', of app] Cons.prems(2,3) leaf show ?thesis by simp
  next
    fix t l r assume node: "node = NeighborNode t l r" and l: "l \<noteq> NULL"
    define new where "new = map (\<lambda>p. \<lparr>neighbor_el = neighbor_el (neighbors ns ! length kept),
                       neighbor_edge = neighbor_edge (neighbors ns ! length kept),
                       central_transformations = central_transformations (neighbors ns ! length kept) @ p,
                       neighbor_transformations = neighbor_transformations (neighbors ns ! length kept)
                         @ map (neighbor_label (central_el_mode ns) (active_edge ns)
                                  (neighbor_edge (neighbors ns ! length kept))) p\<rparr>)
              (leaf_paths (NeighborNode t l r))"
    from up node l have e1: "added = - 1"
      "ns1 = ns\<lparr>neighbors := (take (length kept) (neighbors ns) @ drop (Suc (length kept)) (neighbors ns)) @ new\<rparr>"
      by (simp_all add: update_ns_subtree_inner new_def)
    have n1: "neighbors ns1 = kept @ rem @ (app @ new)"
      using e1(2) Cons.prems(2) by simp
    have newne: "new \<noteq> []" using leaf_paths_inner_nonempty[OF l, of t r] by (simp add: new_def)
    have newc: "map central_transformations new = replaced_paths rt (central_transformations e)"
      using fn node ei by (simp add: new_def replaced_paths_def comp_def)
    have notleaf: "\<not> ends_at_leaf rt (central_transformations e)"
      using fn node l by (simp add: ends_at_leaf_def split: NeighborNode.splits)
    have i': "?i + (- 1) + 1 = word_of_nat (length kept)" by simp
    have n': "?num + (- 1) = word_of_nat (length kept + length rem)" by simp
    have rec': "update_neighbor_search_loop rt ns1 (word_of_nat (length kept))
        (word_of_nat (length kept + length rem)) = Inr ns'"
      using rec unfolding e1(1) i' n' .
    from Cons.IH[OF rec' n1] Cons.prems(3) notleaf newc newne show ?thesis by simp
  qed
qed

lemma update_neighbor_search_paths:
  assumes "update_neighbor_search ns rt = Inr ns'" and "n_neighbors ns < 2 ^ 32"
  shows "map central_transformations (neighbors ns')
           = updated_central_paths rt (map central_transformations (neighbors ns))
         \<and> (neighbors ns \<noteq> [] \<longrightarrow> neighbors ns' \<noteq> [])"
  using update_loop_paths[of rt ns "[]" "neighbors ns" ns' "[]"] assms
  by (simp add: update_neighbor_search_def n_neighbors_def updated_central_paths_def)

lemma paths_through_leaf_paths:
  "n \<noteq> NULL \<Longrightarrow> paths_through n = map ((#) (get_transformation n)) (leaf_paths n)"
  by (cases n) (auto simp: leaf_paths_def)

lemma find_node_leaf_paths:
  "find_node p n = Inr m \<Longrightarrow> q \<in> set (leaf_paths m) \<Longrightarrow> p @ q \<in> set (leaf_paths n)"
proof (induction p arbitrary: n)
  case Nil
  then show ?case by simp
next
  case (Cons x xs)
  from Cons.prems(1) obtain t l r where n: "n = NeighborNode t l r" by (cases n) auto
  show ?case
  proof (cases "l \<noteq> NULL \<and> get_transformation l = x")
    case True
    with Cons.prems n have "find_node xs l = Inr m" by simp
    moreover have "leaf_paths n = paths_through l @ paths_through r"
      using n True by (simp add: leaf_paths_def)
    moreover have "paths_through l = map ((#) x) (leaf_paths l)"
      using True by (simp add: paths_through_leaf_paths)
    ultimately show ?thesis using Cons.IH[of l] Cons.prems(2) by simp
  next
    case False
    with Cons.prems n have r: "r \<noteq> NULL" "get_transformation r = x" "find_node xs r = Inr m"
      by (auto split: if_splits)
    have "leaf_paths n = paths_through l @ paths_through r"
      using n r by (simp add: leaf_paths_def)
    moreover have "paths_through r = map ((#) x) (leaf_paths r)"
      using r by (simp add: paths_through_leaf_paths)
    ultimately show ?thesis using Cons.IH[OF r(3) Cons.prems(2)] by simp
  qed
qed

lemma updated_central_paths_leaves:
  "set (updated_central_paths rt ps) \<subseteq> set (leaf_paths rt)"
proof
  fix p assume "p \<in> set (updated_central_paths rt ps)"
  then consider (kept) "ends_at_leaf rt p"
    | (repl) p0 where "p \<in> set (replaced_paths rt p0)"
    by (auto simp: updated_central_paths_def)
  then show "p \<in> set (leaf_paths rt)"
  proof cases
    case kept
    then obtain t where "find_node p rt = Inr (NeighborNode t NULL NULL)"
      by (auto simp: ends_at_leaf_def split: sum.splits NeighborNode.splits)
    from find_node_leaf_paths[OF this, of "[]"] show ?thesis by (simp add: leaf_paths_def)
  next
    case repl
    show ?thesis
    proof (cases "find_node p0 rt")
      case (Inl e)
      with repl show ?thesis by (simp add: replaced_paths_def)
    next
      case (Inr node)
      with repl obtain q where "q \<in> set (leaf_paths node)" "p = p0 @ q"
        by (auto simp: replaced_paths_def)
      with find_node_leaf_paths[OF Inr] show ?thesis by blast
    qed
  qed
qed

lemma update_and_check_counts:
  "update_and_check rt nss n0 = Inr (nss', num) \<Longrightarrow>
     (n0 \<noteq> 0 \<longrightarrow> num = n0)
     \<and> (\<forall>ns'. Some ns' \<in> set nss' \<longrightarrow> n_neighbors ns' = num \<or> (n0 = 0 \<and> n_neighbors ns' = 0))
     \<and> list_all2 (\<lambda>s s'. case s of None \<Rightarrow> s' = None
                        | Some ns \<Rightarrow> \<exists>ns'. s' = Some ns' \<and> update_neighbor_search ns rt = Inr ns') nss nss'"
proof (induction rt nss n0 arbitrary: nss' num rule: update_and_check.induct)
  case (1 rt num_neighbors)
  then show ?case by simp
next
  case (2 rt nss num_neighbors)
  then show ?case by (auto split: sum.splits)
next
  case (3 rt ns nss num_neighbors)
  from "3.prems" obtain ns1 where u: "update_neighbor_search ns rt = Inr ns1"
    by (auto split: sum.splits)
  define n1 where "n1 = (if num_neighbors = 0 then n_neighbors ns1 else num_neighbors)"
  from "3.prems" u have eq: "n_neighbors ns1 = n1"
    by (auto simp: n1_def Let_def split: sum.splits if_splits)
  from "3.prems" u eq obtain rest where
    rest: "update_and_check rt nss n1 = Inr (rest, num)" "nss' = Some ns1 # rest"
    by (auto simp: n1_def Let_def split: sum.splits if_splits)
  from "3.IH"[OF u n1_def _ rest(1)] eq
  have ih: "(n1 \<noteq> 0 \<longrightarrow> num = n1)"
    "\<forall>ns'. Some ns' \<in> set rest \<longrightarrow> n_neighbors ns' = num \<or> (n1 = 0 \<and> n_neighbors ns' = 0)"
    "list_all2 (\<lambda>s s'. case s of None \<Rightarrow> s' = None
                        | Some ns \<Rightarrow> \<exists>ns'. s' = Some ns' \<and> update_neighbor_search ns rt = Inr ns') nss rest"
    by auto
  have c1: "num_neighbors \<noteq> 0 \<longrightarrow> num = num_neighbors"
    using ih(1) by (simp add: n1_def)
  have c2: "\<forall>ns'. Some ns' \<in> set nss' \<longrightarrow>
      n_neighbors ns' = num \<or> (num_neighbors = 0 \<and> n_neighbors ns' = 0)"
  proof (intro allI impI)
    fix ns' assume "Some ns' \<in> set nss'"
    then consider "ns' = ns1" | "Some ns' \<in> set rest" using rest(2) by auto
    then show "n_neighbors ns' = num \<or> (num_neighbors = 0 \<and> n_neighbors ns' = 0)"
    proof cases
      case 1
      then show ?thesis using eq ih(1) by (cases "num_neighbors = 0") (auto simp: n1_def)
    next
      case 2
      then show ?thesis using ih(2) ih(1) by (cases "num_neighbors = 0") (auto simp: n1_def)
    qed
  qed
  have c3: "list_all2 (\<lambda>s s'. case s of None \<Rightarrow> s' = None
                        | Some ns \<Rightarrow> \<exists>ns'. s' = Some ns' \<and> update_neighbor_search ns rt = Inr ns')
      (Some ns # nss) nss'"
    using ih(3) u rest(2) by simp
  show ?case using c1 c2 c3 by blast
qed

text \<open>
  What the update does achieve. When the multimesh tree is built from neighbor searches
  that have at least one neighbor each and \<open>update_neighbor_search\<close> has been applied to
  every one of them without a fatal error, all of them have the same number of neighbors,
  and their central paths are paths to leaves of the tree: the neighbors whose path ends
  at a leaf keep their place, and each neighbor whose path ends at an inner node is taken
  out and replaced, at the end of the list, by one neighbor per leaf below that node.
\<close>

lemma reconciled_neighbor_searches:
  assumes rec: "reconcile_neighbor_searches nss = Inr (nss', num)"
    and ne: "\<forall>ns. Some ns \<in> set nss \<longrightarrow> neighbors ns \<noteq> [] \<and> n_neighbors ns < 2 ^ 32"
  shows "(\<forall>ns'. Some ns' \<in> set nss' \<longrightarrow> n_neighbors ns' = num)
       \<and> (\<exists>rt. build_multimesh_tree (NeighborNode 0 NULL NULL) nss = Inr rt
            \<and> list_all2 (\<lambda>s s'. case s of
                   None \<Rightarrow> s' = None
                 | Some ns \<Rightarrow> \<exists>ns'. s' = Some ns'
                     \<and> map central_transformations (neighbors ns')
                         = updated_central_paths rt (map central_transformations (neighbors ns))
                     \<and> set (map central_transformations (neighbors ns')) \<subseteq> set (leaf_paths rt))
                 nss nss')"
proof -
  from rec obtain rt where rt: "build_multimesh_tree (NeighborNode 0 NULL NULL) nss = Inr rt"
    and uc: "update_and_check rt nss 0 = Inr (nss', num)"
    by (auto simp: reconcile_neighbor_searches_def split: sum.splits)
  from update_and_check_counts[OF uc]
  have cnt: "\<forall>ns'. Some ns' \<in> set nss' \<longrightarrow> n_neighbors ns' = num \<or> n_neighbors ns' = 0"
    and rel: "list_all2 (\<lambda>s s'. case s of None \<Rightarrow> s' = None
                 | Some ns \<Rightarrow> \<exists>ns'. s' = Some ns' \<and> update_neighbor_search ns rt = Inr ns') nss nss'"
    by auto
  have step: "(case s of None \<Rightarrow> s' = None
               | Some ns \<Rightarrow> \<exists>ns'. s' = Some ns'
                     \<and> map central_transformations (neighbors ns')
                         = updated_central_paths rt (map central_transformations (neighbors ns))
                     \<and> set (map central_transformations (neighbors ns')) \<subseteq> set (leaf_paths rt))
              \<and> (\<forall>ns'. s' = Some ns' \<longrightarrow> neighbors ns' \<noteq> [])"
    if s: "s \<in> set nss"
      and r: "case s of None \<Rightarrow> s' = None
              | Some ns \<Rightarrow> \<exists>ns'. s' = Some ns' \<and> update_neighbor_search ns rt = Inr ns'"
    for s s'
  proof (cases s)
    case None
    with r show ?thesis by simp
  next
    case (Some ns)
    with r obtain ns' where ns': "s' = Some ns'" "update_neighbor_search ns rt = Inr ns'" by auto
    from ne s Some have "neighbors ns \<noteq> []" "n_neighbors ns < 2 ^ 32" by auto
    with update_neighbor_search_paths[OF ns'(2)]
    have m: "map central_transformations (neighbors ns')
            = updated_central_paths rt (map central_transformations (neighbors ns))"
      "neighbors ns' \<noteq> []" by auto
    have sub: "set (map central_transformations (neighbors ns')) \<subseteq> set (leaf_paths rt)"
      unfolding m(1) by (rule updated_central_paths_leaves)
    show ?thesis unfolding Some option.case using ns'(1) m sub by blast
  qed
  have all: "list_all2 (\<lambda>s s'. (case s of None \<Rightarrow> s' = None
               | Some ns \<Rightarrow> \<exists>ns'. s' = Some ns'
                     \<and> map central_transformations (neighbors ns')
                         = updated_central_paths rt (map central_transformations (neighbors ns))
                     \<and> set (map central_transformations (neighbors ns')) \<subseteq> set (leaf_paths rt))
              \<and> (\<forall>ns'. s' = Some ns' \<longrightarrow> neighbors ns' \<noteq> [])) nss nss'"
    using rel by (rule list.rel_mono_strong) (rule step)
  have nonempty: "neighbors ns' \<noteq> []" if "Some ns' \<in> set nss'" for ns'
    using all that by (auto simp: list_all2_conv_all_nth in_set_conv_nth)
  have "\<forall>ns'. Some ns' \<in> set nss' \<longrightarrow> n_neighbors ns' = num"
    using cnt nonempty by (auto simp: n_neighbors_def)
  moreover have "list_all2 (\<lambda>s s'. case s of
                   None \<Rightarrow> s' = None
                 | Some ns \<Rightarrow> \<exists>ns'. s' = Some ns'
                     \<and> map central_transformations (neighbors ns')
                         = updated_central_paths rt (map central_transformations (neighbors ns))
                     \<and> set (map central_transformations (neighbors ns')) \<subseteq> set (leaf_paths rt))
                 nss nss'"
    using all by (rule list.rel_mono_strong) simp
  ultimately show ?thesis using rt by blast
qed

lemma reconciled_neighbor_searches_example:
  "reconcile_neighbor_searches [Some ns_coarse, Some ns_fine]
     = Inr ([Some ns_coarse_updated, Some ns_fine], 3)
   \<and> n_neighbors ns_coarse_updated = 3 \<and> n_neighbors ns_fine = 3
   \<and> map central_transformations (neighbors ns_coarse_updated)
       = updated_central_paths example_tree (map central_transformations (neighbors ns_coarse))"
proof -
  have r: "reconcile_neighbor_searches [Some ns_coarse, Some ns_fine]
     = Inr ([Some ns_coarse_updated, Some ns_fine], 3)"
    unfolding reconcile_neighbor_searches_def example_build
    by (simp add: example_update_coarse example_update_fine example_counts)
  have h: "\<forall>ns. Some ns \<in> set [Some ns_coarse, Some ns_fine]
      \<longrightarrow> neighbors ns \<noteq> [] \<and> n_neighbors ns < 2 ^ 32"
    by (simp add: ns_coarse_def ns_fine_def n_neighbors_def)
  from reconciled_neighbor_searches[OF r h] show ?thesis
    using r unfolding example_build by (simp add: example_counts)
qed

text \<open>
  C5 on the code. The active edge is seen from a mesh with the segments 0 and 1 and from a
  mesh where segment 0 is split once more. Both records have three neighbors after the
  update and the comparison of the numbers passes. The record of the finer mesh lists the
  segments in the order 00, 01, 1, which is the depth-first enumeration of the leaves; the
  record of the coarser mesh lists them in the order 1, 00, 01, because the neighbor that
  is replaced is taken out and its replacements are added at the end. The assembly then
  addresses the segments of all records by one common number: for the number 0 it pushes
  the transformation 1 on the functions of the first mesh and 00 on those of the second.
  Moreover a record without neighbors in front of one with three passes the comparison
  of the numbers, where 0 stands for "no number yet".
\<close>

theorem neighbor_searches_not_aligned:
  "reconcile_neighbor_searches [Some ns_coarse, Some ns_fine]
     = Inr ([Some ns_coarse_updated, Some ns_fine], 3)
   \<and> build_multimesh_tree (NeighborNode 0 NULL NULL) [Some ns_coarse, Some ns_fine] = Inr example_tree
   \<and> leaf_paths example_tree = [[0, 0], [0, 1], [1]]
   \<and> map central_transformations (neighbors ns_fine) = [[0, 0], [0, 1], [1]]
   \<and> map central_transformations (neighbors ns_coarse_updated) = [[1], [0, 0], [0, 1]]
   \<and> map (pushed_central_transformations [Some ns_coarse_updated, Some ns_fine]) [0, 1, 2]
       = [[[1], [0, 0]], [[0, 0], [0, 1]], [[0, 1], [1]]]
   \<and> reconcile_neighbor_searches [Some ns_none, Some ns_fine] = Inr ([Some ns_none, Some ns_fine], 3)
   \<and> n_neighbors ns_none = 0 \<and> n_neighbors ns_fine = 3"
proof -
  have "leaf_paths example_tree = [[0, 0], [0, 1], [1]]"
    by (simp add: leaf_paths_def example_tree_def)
  moreover have "map central_transformations (neighbors ns_coarse_updated) = [[1], [0, 0], [0, 1]]"
    by (simp add: ns_coarse_updated_def example_neighbor_def)
  moreover have "map central_transformations (neighbors ns_fine) = [[0, 0], [0, 1], [1]]"
    by (simp add: ns_fine_def example_neighbor_def)
  moreover have "map (pushed_central_transformations [Some ns_coarse_updated, Some ns_fine]) [0, 1, 2]
       = [[[1], [0, 0]], [[0, 0], [0, 1]], [[0, 1], [1]]]"
    by (simp add: pushed_central_transformations_def ns_coarse_updated_def ns_fine_def
        example_neighbor_def)
  ultimately show ?thesis
    unfolding reconcile_neighbor_searches_def example_build
    by (simp add: example_update_coarse example_update_fine example_update_none example_counts)
qed

section \<open>Theorems on form evaluation\<close>


text \<open>
  C9. Every evaluation of a surface form multiplies the numerically integrated value by
  exactly 0.5, besides the scaling factor of the form: the quadrature of a boundary matrix
  or vector form (\<open>eval_form_subelement_surf\<close>, at every order and edge, hence also the
  non-adaptive \<open>eval_form_surf\<close>), of their multi-component variants, and of the DG
  inner-edge forms, single- and multi-component.
\<close>

theorem surface_forms_half_factor:
  "fst (eval_form_subelement_surf q surf_num order f trf cache)
     = 0.5 * (form_value f (geom_used cache (get_edge_points q surf_num order)
                 (init_geom_surf q trf surf_num (get_edge_points q surf_num order)))
               trf (get_edge_points q surf_num order) * scaling_factor f)
   \<and> (\<not> adapt_eval f \<longrightarrow>
        map_option fst (eval_form_surf q surf_num order order_init f cache)
          = Some (0.5 * (form_value f (geom_used cache (get_edge_points q surf_num order)
                 (init_geom_surf q [] surf_num (get_edge_points q surf_num order)))
               [] (get_edge_points q surf_num order) * scaling_factor f)))
   \<and> fst (eval_form_mc_surf q surf_num order g trf cache)
       = map (\<lambda>r. 0.5 * (r * mc_scaling_factor g))
           (mc_value g (geom_used cache (get_edge_points q surf_num order)
                 (init_geom_surf q trf surf_num (get_edge_points q surf_num order)))
               trf (get_edge_points q surf_num order))
   \<and> fst (eval_dg_form q surf_num order f trf cache)
       = 0.5 * (form_value f (interface_geom q (geom_used cache (get_edge_points q surf_num order)
                 (init_geom_surf q trf surf_num (get_edge_points q surf_num order))))
               trf (get_edge_points q surf_num order) * scaling_factor f)
   \<and> fst (eval_dg_form_mc q surf_num order g trf cache)
       = map (\<lambda>r. 0.5 * (r * mc_scaling_factor g))
           (mc_value g (interface_geom q (geom_used cache (get_edge_points q surf_num order)
                 (init_geom_surf q trf surf_num (get_edge_points q surf_num order))))
               trf (get_edge_points q surf_num order))"
  by (simp add: eval_form_subelement_surf_def eval_form_surf_def eval_form_mc_surf_def
      eval_dg_form_def eval_dg_form_mc_def geom_used_def Let_def split_beta)

theorem surface_forms_half_factor_witness:
  "\<not> adapt_eval (adaptive_form_example\<lparr>adapt_eval := False, scaling_factor := 4\<rparr>)
   \<and> map_option fst (eval_form_surf dg_quad_example 1 2 0
         (adaptive_form_example\<lparr>adapt_eval := False, scaling_factor := 4\<rparr>) Map.empty) = Some 2"
  using surface_forms_half_factor [of dg_quad_example 1 2
      "adaptive_form_example\<lparr>adapt_eval := False, scaling_factor := 4\<rparr>" "[]" Map.empty 0]
  by (simp add: adaptive_form_example_def dg_quad_example_def geom_used_def cached_geom_def)

text \<open>
  A run of the adaptive evaluator whose four sons always integrate to 1 against a baseline
  of 1 never meets a tolerance of at most 3/4 and never returns.
\<close>

lemma eval_form_adaptive_never_Some:
  assumes sub: "\<And>ord trf c. fst (sub ord trf c) = 1"
    and tol: "adapt_rel_error_tol f \<le> 3 / 4"
    and ev: "eval_form_adaptive sub order_init result_init f trf cache = Some y"
  shows "result_init \<noteq> 1"
proof -
  have "sub = sub \<longrightarrow> f = f \<longrightarrow> result_init \<noteq> 1"
  proof (rule eval_form_adaptive.raw_induct
      [OF _ ev, where P = "\<lambda>s oi ri g t c y. s = sub \<longrightarrow> g = f \<longrightarrow> ri \<noteq> 1"], goal_cases)
    case (1 F s oi ri g t c y)
    show ?case
    proof (intro impI notI)
      assume s: "s = sub" and g: "g = f" and ri: "ri = 1"
      from 1(2) tol obtain y0 c' where "F sub (oi + adapt_order_increase f) 1 f (t @ [0]) c' = Some y0"
        by (auto simp: s g ri eval_sons_def sub Let_def split_beta bind_eq_Some_conv)
      from 1(1)[OF this] show False by simp
    qed
  qed
  then show ?thesis by simp
qed

lemma eval_form_adaptive_diverges:
  assumes sub: "\<And>ord trf c. fst (sub ord trf c) = 1"
    and tol: "adapt_rel_error_tol f \<le> 3 / 4"
  shows "eval_form_adaptive sub order_init 1 f trf cache = None"
  using eval_form_adaptive_never_Some[of sub f order_init 1 trf cache] sub tol
  by (cases "eval_form_adaptive sub order_init 1 f trf cache") auto

text \<open>
  In the adaptive evaluator of the volume forms every son is integrated on its own
  geometry: the slot of the cache is cleared before and after each of them.
\<close>

lemma eval_sons_vol:
  "eval_sons (\<lambda>ord. eval_form_subelement_vol q ord f) order trf cache
     = ((son_value q f order trf 0, son_value q f order trf 1, son_value q f order trf 2,
         son_value q f order trf 3), delete_single_geom_cache order cache)"
  by (simp add: eval_sons_def eval_form_subelement_vol_def cached_geom_def
      delete_single_geom_cache_def son_value_def)

text \<open>
  C6 (as amended). For every single-component volume form evaluated by \<open>eval_form_vol\<close>
  with adaptive evaluation enabled, the evaluator takes the quadrature at the initial
  order as coarse estimate and calls \<open>eval_form_adaptive\<close>, which sums the form over the
  four sons at \<open>order_init + adapt_order_increase\<close>, each on its own geometry; it returns
  that sum when its absolute value is below 1e-6, or when \<open>|sum - coarse| / |sum|\<close> is below
  the tolerance of the form; otherwise it recurses into each of the four sons with that
  son's own value as baseline and returns the sum of the four results. The recursion has
  no depth bound: the evaluation of the form that integrates to 1 everywhere, with the
  tolerance 1/2, never returns. An inner-edge form is integrated by \<open>eval_dg_form\<close> once,
  whatever its adaptive settings are.
\<close>

theorem adaptive_evaluation_steps:
  "(\<bar>sons_sum q f (order_init + adapt_order_increase f) trf\<bar> < 1 / 1000000
      \<or> \<bar>sons_sum q f (order_init + adapt_order_increase f) trf - result_init\<bar>
           / \<bar>sons_sum q f (order_init + adapt_order_increase f) trf\<bar> < adapt_rel_error_tol f
    \<longrightarrow> eval_form_adaptive (\<lambda>ord. eval_form_subelement_vol q ord f) order_init result_init f trf cache
          = Some (sons_sum q f (order_init + adapt_order_increase f) trf,
                  delete_single_geom_cache (order_init + adapt_order_increase f) cache))
   \<and> (\<not> \<bar>sons_sum q f (order_init + adapt_order_increase f) trf\<bar> < 1 / 1000000
      \<and> \<not> \<bar>sons_sum q f (order_init + adapt_order_increase f) trf - result_init\<bar>
           / \<bar>sons_sum q f (order_init + adapt_order_increase f) trf\<bar> < adapt_rel_error_tol f
    \<longrightarrow> eval_form_adaptive (\<lambda>ord. eval_form_subelement_vol q ord f) order_init result_init f trf cache
          = do {
              (r0, c) \<leftarrow> eval_form_adaptive (\<lambda>ord. eval_form_subelement_vol q ord f)
                           (order_init + adapt_order_increase f)
                           (son_value q f (order_init + adapt_order_increase f) trf 0) f (trf @ [0])
                           (delete_single_geom_cache (order_init + adapt_order_increase f) cache);
              (r1, c) \<leftarrow> eval_form_adaptive (\<lambda>ord. eval_form_subelement_vol q ord f)
                           (order_init + adapt_order_increase f)
                           (son_value q f (order_init + adapt_order_increase f) trf 1) f (trf @ [1]) c;
              (r2, c) \<leftarrow> eval_form_adaptive (\<lambda>ord. eval_form_subelement_vol q ord f)
                           (order_init + adapt_order_increase f)
                           (son_value q f (order_init + adapt_order_increase f) trf 2) f (trf @ [2]) c;
              (r3, c) \<leftarrow> eval_form_adaptive (\<lambda>ord. eval_form_subelement_vol q ord f)
                           (order_init + adapt_order_increase f)
                           (son_value q f (order_init + adapt_order_increase f) trf 3) f (trf @ [3]) c;
              Some (0 + r0 + r1 + r2 + r3, c)
            })
   \<and> (adapt_eval f
    \<longrightarrow> eval_form_vol q order_calc order_init f cache
          = eval_form_adaptive (\<lambda>ord. eval_form_subelement_vol q ord f) order_init
              (form_value f (geom_used cache order_init (init_geom_vol q [] order_init)) [] order_init
                 * scaling_factor f)
              f [] (snd (cached_geom cache order_init (init_geom_vol q [] order_init))))
   \<and> eval_form_vol dg_quad_example order_calc order_init diverging_form_example Map.empty = None
   \<and> eval_dg_form q surf_num order_calc
         (f\<lparr>adapt_eval := b, adapt_order_increase := k, adapt_rel_error_tol := t\<rparr>) trf cache
       = eval_dg_form q surf_num order_calc f trf cache"
proof -
  have div: "eval_form_vol dg_quad_example order_calc order_init diverging_form_example Map.empty = None"
  proof -
    have "eval_form_adaptive (\<lambda>ord. eval_form_subelement_vol dg_quad_example ord diverging_form_example)
            order_init 1 diverging_form_example [] c = None" for c
      by (rule eval_form_adaptive_diverges)
        (simp_all add: eval_form_subelement_vol_def diverging_form_example_def
          adaptive_form_example_def split_beta)
    then show ?thesis
      by (simp add: eval_form_vol_def eval_form_subelement_vol_def diverging_form_example_def
          adaptive_form_example_def split_beta)
  qed
  have unfold: "eval_form_adaptive (\<lambda>ord. eval_form_subelement_vol q ord f) order_init result_init f trf cache
      = (if \<bar>sons_sum q f (order_init + adapt_order_increase f) trf\<bar> < 1 / 1000000
         then Some (sons_sum q f (order_init + adapt_order_increase f) trf,
                    delete_single_geom_cache (order_init + adapt_order_increase f) cache)
         else if \<bar>sons_sum q f (order_init + adapt_order_increase f) trf - result_init\<bar>
                   / \<bar>sons_sum q f (order_init + adapt_order_increase f) trf\<bar> < adapt_rel_error_tol f
         then Some (sons_sum q f (order_init + adapt_order_increase f) trf,
                    delete_single_geom_cache (order_init + adapt_order_increase f) cache)
         else do {
              (r0, c) \<leftarrow> eval_form_adaptive (\<lambda>ord. eval_form_subelement_vol q ord f)
                           (order_init + adapt_order_increase f)
                           (son_value q f (order_init + adapt_order_increase f) trf 0) f (trf @ [0])
                           (delete_single_geom_cache (order_init + adapt_order_increase f) cache);
              (r1, c) \<leftarrow> eval_form_adaptive (\<lambda>ord. eval_form_subelement_vol q ord f)
                           (order_init + adapt_order_increase f)
                           (son_value q f (order_init + adapt_order_increase f) trf 1) f (trf @ [1]) c;
              (r2, c) \<leftarrow> eval_form_adaptive (\<lambda>ord. eval_form_subelement_vol q ord f)
                           (order_init + adapt_order_increase f)
                           (son_value q f (order_init + adapt_order_increase f) trf 2) f (trf @ [2]) c;
              (r3, c) \<leftarrow> eval_form_adaptive (\<lambda>ord. eval_form_subelement_vol q ord f)
                           (order_init + adapt_order_increase f)
                           (son_value q f (order_init + adapt_order_increase f) trf 3) f (trf @ [3]) c;
              Some (0 + r0 + r1 + r2 + r3, c)
            })"
    by (subst eval_form_adaptive.simps) (simp add: eval_sons_vol sons_sum_def Let_def)
  have vol: "eval_form_vol q order_calc order_init f cache
          = eval_form_adaptive (\<lambda>ord. eval_form_subelement_vol q ord f) order_init
              (form_value f (geom_used cache order_init (init_geom_vol q [] order_init)) [] order_init
                 * scaling_factor f)
              f [] (snd (cached_geom cache order_init (init_geom_vol q [] order_init)))"
    if "adapt_eval f"
    using that by (simp add: eval_form_vol_def eval_form_subelement_vol_def geom_used_def split_beta)
  have dg: "eval_dg_form q surf_num order_calc
         (f\<lparr>adapt_eval := b, adapt_order_increase := k, adapt_rel_error_tol := t\<rparr>) trf cache
       = eval_dg_form q surf_num order_calc f trf cache"
    by (simp add: eval_dg_form_def)
  show ?thesis
  proof (intro conjI impI)
    assume "\<bar>sons_sum q f (order_init + adapt_order_increase f) trf\<bar> < 1 / 1000000
      \<or> \<bar>sons_sum q f (order_init + adapt_order_increase f) trf - result_init\<bar>
           / \<bar>sons_sum q f (order_init + adapt_order_increase f) trf\<bar> < adapt_rel_error_tol f"
    then show "eval_form_adaptive (\<lambda>ord. eval_form_subelement_vol q ord f) order_init result_init f trf cache
          = Some (sons_sum q f (order_init + adapt_order_increase f) trf,
                  delete_single_geom_cache (order_init + adapt_order_increase f) cache)"
      unfolding unfold by auto
  next
    assume "\<not> \<bar>sons_sum q f (order_init + adapt_order_increase f) trf\<bar> < 1 / 1000000
      \<and> \<not> \<bar>sons_sum q f (order_init + adapt_order_increase f) trf - result_init\<bar>
           / \<bar>sons_sum q f (order_init + adapt_order_increase f) trf\<bar> < adapt_rel_error_tol f"
    then show "eval_form_adaptive (\<lambda>ord. eval_form_subelement_vol q ord f) order_init result_init f trf cache
          = do {
              (r0, c) \<leftarrow> eval_form_adaptive (\<lambda>ord. eval_form_subelement_vol q ord f)
                           (order_init + adapt_order_increase f)
                           (son_value q f (order_init + adapt_order_increase f) trf 0) f (trf @ [0])
                           (delete_single_geom_cache (order_init + adapt_order_increase f) cache);
              (r1, c) \<leftarrow> eval_form_adaptive (\<lambda>ord. eval_form_subelement_vol q ord f)
                           (order_init + adapt_order_increase f)
                           (son_value q f (order_init + adapt_order_increase f) trf 1) f (trf @ [1]) c;
              (r2, c) \<leftarrow> eval_form_adaptive (\<lambda>ord. eval_form_subelement_vol q ord f)
                           (order_init + adapt_order_increase f)
                           (son_value q f (order_init + adapt_order_increase f) trf 2) f (trf @ [2]) c;
              (r3, c) \<leftarrow> eval_form_adaptive (\<lambda>ord. eval_form_subelement_vol q ord f)
                           (order_init + adapt_order_increase f)
                           (son_value q f (order_init + adapt_order_increase f) trf 3) f (trf @ [3]) c;
              Some (0 + r0 + r1 + r2 + r3, c)
            }"
      by (subst unfold) simp
  next
    assume "adapt_eval f"
    then show "eval_form_vol q order_calc order_init f cache
          = eval_form_adaptive (\<lambda>ord. eval_form_subelement_vol q ord f) order_init
              (form_value f (geom_used cache order_init (init_geom_vol q [] order_init)) [] order_init
                 * scaling_factor f)
              f [] (snd (cached_geom cache order_init (init_geom_vol q [] order_init)))"
      by (rule vol)
  next
    show "eval_form_vol dg_quad_example order_calc order_init diverging_form_example Map.empty = None"
      by (rule div)
  next
    show "eval_dg_form q surf_num order_calc
         (f\<lparr>adapt_eval := b, adapt_order_increase := k, adapt_rel_error_tol := t\<rparr>) trf cache
       = eval_dg_form q surf_num order_calc f trf cache"
      by (rule dg)
  qed
qed

lemma refined_form_sons:
  "son_value path_quad_example refined_form_example ord trf i = 2 / 4 ^ Suc (length trf)"
  "sons_sum path_quad_example refined_form_example ord trf = 2 / 4 ^ length trf"
  by (simp_all add: sons_sum_def son_value_def path_quad_example_def refined_form_example_def)

theorem adaptive_evaluation_steps_witness:
  "adapt_eval refined_form_example
   \<and> \<not> \<bar>sons_sum path_quad_example refined_form_example 3 []\<bar> < 1 / 1000000
   \<and> \<not> \<bar>sons_sum path_quad_example refined_form_example 3 [] - 4\<bar>
          / \<bar>sons_sum path_quad_example refined_form_example 3 []\<bar> < adapt_rel_error_tol refined_form_example
   \<and> \<bar>sons_sum path_quad_example refined_form_example 4 [0] - 1 / 2\<bar>
          / \<bar>sons_sum path_quad_example refined_form_example 4 [0]\<bar> < adapt_rel_error_tol refined_form_example
   \<and> map_option fst (eval_form_vol path_quad_example 7 2 refined_form_example Map.empty) = Some 2"
proof -
  have tol: "adapt_rel_error_tol refined_form_example = 1 / 2"
    and inc: "adapt_order_increase refined_form_example = 1"
    and ad: "adapt_eval refined_form_example"
    by (simp_all add: refined_form_example_def)
  have son: "eval_form_adaptive (\<lambda>ord. eval_form_subelement_vol path_quad_example ord refined_form_example)
               3 (1 / 2) refined_form_example [i] c = Some (1 / 2, delete_single_geom_cache 4 c)" for i c
    using adaptive_evaluation_steps [of path_quad_example refined_form_example 3 "[i]" "1 / 2" c]
    by (simp add: refined_form_sons tol inc)
  have root: "eval_form_adaptive (\<lambda>ord. eval_form_subelement_vol path_quad_example ord refined_form_example)
               2 4 refined_form_example [] c = Some (2, delete_single_geom_cache 4 (delete_single_geom_cache 3 c))" for c
    using adaptive_evaluation_steps [of path_quad_example refined_form_example 2 "[]" 4 c]
    by (simp add: refined_form_sons tol inc son delete_single_geom_cache_def)
  from adaptive_evaluation_steps [of path_quad_example refined_form_example 2 "[]" 4 Map.empty 7] ad
  have e: "eval_form_vol path_quad_example 7 2 refined_form_example Map.empty
      = eval_form_adaptive (\<lambda>ord. eval_form_subelement_vol path_quad_example ord refined_form_example) 2
          (form_value refined_form_example
             (geom_used Map.empty 2 (init_geom_vol path_quad_example [] 2)) [] 2
            * scaling_factor refined_form_example)
          refined_form_example [] (snd (cached_geom Map.empty 2 (init_geom_vol path_quad_example [] 2)))"
    by blast
  have coarse: "form_value refined_form_example
             (geom_used Map.empty 2 (init_geom_vol path_quad_example [] 2)) [] 2
            * scaling_factor refined_form_example = 4"
    by (simp add: geom_used_def cached_geom_def path_quad_example_def refined_form_example_def)
  have "map_option fst (eval_form_vol path_quad_example 7 2 refined_form_example Map.empty) = Some 2"
    by (simp add: e coarse root)
  then show ?thesis
    by (simp add: refined_form_sons tol ad)
qed

text \<open>
  C6 as stated fails for an inner-edge form: \<open>eval_dg_form\<close> does not read
  \<open>adapt_eval\<close>. The first form below has adaptive evaluation enabled; on the inner edge
  it is integrated once (value 1/2), where the adaptive evaluator accepts the sum 2 of the
  four sons. It also fails for a boundary form: the quadrature of a boundary form keeps its
  geometry in the slot of the edge order, the adaptive evaluator clears the slot of the
  order. After the first son the geometry is not initialised again: the sons 1, 2 and 3 of
  the second form are integrated on the geometry of son 0 and give 500 each, where each
  son on its own geometry gives 1/4.
\<close>

theorem adaptive_evaluation_counterexample:
  "adapt_eval adaptive_form_example
   \<and> fst (eval_dg_form dg_quad_example 0 2 adaptive_form_example [] Map.empty) = 1 / 2
   \<and> map_option fst (eval_form_surf dg_quad_example 0 2 2 adaptive_form_example Map.empty) = Some 2
   \<and> adapt_eval refined_form_example
   \<and> map (\<lambda>i. fst (eval_form_subelement_surf path_quad_example 0 3 refined_form_example [i] Map.empty))
         [0, 1, 2, 3] = [1 / 4, 1 / 4, 1 / 4, 1 / 4]
   \<and> fst (eval_sons (\<lambda>ord. eval_form_subelement_surf path_quad_example 0 ord refined_form_example)
         3 [] Map.empty) = (1 / 4, 500, 500, 500)
   \<and> fst (eval_sons (\<lambda>ord. eval_form_subelement_vol path_quad_example ord refined_form_example)
         3 [] Map.empty) = (1 / 2, 1 / 2, 1 / 2, 1 / 2)"
proof -
  have "map_option fst (eval_form_surf dg_quad_example 0 2 2 adaptive_form_example Map.empty) = Some 2"
    apply (simp add: eval_form_surf_def dg_quad_example_def adaptive_form_example_def cached_geom_def
      eval_form_subelement_surf_def)
    apply (subst eval_form_adaptive.simps)
    apply (simp add: eval_sons_def eval_form_subelement_surf_def cached_geom_def delete_single_geom_cache_def)
    done
  then show ?thesis
    by (simp add: eval_dg_form_def dg_quad_example_def adaptive_form_example_def cached_geom_def
      eval_form_subelement_surf_def eval_form_subelement_vol_def eval_sons_def
      delete_single_geom_cache_def path_quad_example_def refined_form_example_def)
qed

end
